theory Spec2Isabelle
  imports Main "HOL-Library.Sublist"
begin

section \<open>JSON values and property access\<close>

text \<open>
  The dashboard client receives JSON from the REST API (\<^verbatim>\<open>src/lib/api.ts\<close>) and over the
  WebSocket (\<^verbatim>\<open>src/lib/websocket.ts\<close>). A parsed JSON value is one of the six JSON
  kinds. An object is an association list whose keys are pairwise different (what
  \<^verbatim>\<open>JSON.parse\<close> produces); numbers are integers here, no claim computes with them.
\<close>

datatype json =
    JNull
  | JBool bool
  | JNum int
  | JStr string
  | JArr "json list"
  | JObj "(string \<times> json) list"

text \<open>
  What the code can raise: a \<^verbatim>\<open>TypeError\<close> when a property of \<^verbatim>\<open>null\<close> is read, and
  whatever a subscriber's handler throws.
\<close>

datatype error = TypeError | HandlerError

text \<open>
  \<^verbatim>\<open>v.name\<close> for a parsed JSON value \<open>v\<close> and one of the names the code reads
  (\<^verbatim>\<open>type\<close>, \<^verbatim>\<open>jobs\<close>, \<^verbatim>\<open>queries\<close>): reading a property of \<^verbatim>\<open>null\<close> throws, an
  object yields the field or \<^verbatim>\<open>undefined\<close> (\<open>None\<close>), and every other value (number,
  string, boolean, array) has no such property and yields \<^verbatim>\<open>undefined\<close>.
\<close>

fun get_prop :: "json \<Rightarrow> string \<Rightarrow> error + json option" where
  "get_prop JNull name = Inl TypeError"
| "get_prop (JObj fields) name = Inr (map_of fields name)"
| "get_prop v name = Inr None"

text \<open>\<^verbatim>\<open>x ?? []\<close>: the right operand replaces \<^verbatim>\<open>undefined\<close> and \<^verbatim>\<open>null\<close> only.\<close>

fun nullish_or_empty :: "json option \<Rightarrow> json" where
  "nullish_or_empty None = JArr []"
| "nullish_or_empty (Some JNull) = JArr []"
| "nullish_or_empty (Some v) = v"

fun isArray :: "json \<Rightarrow> bool" where
  "isArray (JArr xs) = True"
| "isArray v = False"

section \<open>The list fetchers of the API client\<close>

text \<open>
  \<^verbatim>\<open>
  export async function fetchRecentQueries(limit = 50): Promise<QueryLog[]> {
    const { data } = await api.get("/queries", { params: { limit } });
    return Array.isArray(data) ? data : data.queries ?? [];
  }
  export async function fetchJobs(): Promise<IndexingJob[]> {
    const { data } = await api.get("/jobs");
    return Array.isArray(data) ? data : data.jobs ?? [];
  }
  \<close>
  The argument \<open>data\<close> is the body of the server's response, the value that
  \<^verbatim>\<open>api.get\<close> resolves to; the result is what the promise resolves to (\<open>Inr\<close>) or
  rejects with (\<open>Inl\<close>). The conditional binds weaker than \<^verbatim>\<open>??\<close>.
\<close>

definition fetchRecentQueries :: "json \<Rightarrow> error + json" where
  "fetchRecentQueries data =
     (if isArray data then Inr data
      else (case get_prop data ''queries'' of
              Inl e \<Rightarrow> Inl e
            | Inr v \<Rightarrow> Inr (nullish_or_empty v)))"

definition fetchJobs :: "json \<Rightarrow> error + json" where
  "fetchJobs data =
     (if isArray data then Inr data
      else (case get_prop data ''jobs'' of
              Inl e \<Rightarrow> Inl e
            | Inr v \<Rightarrow> Inr (nullish_or_empty v)))"

section \<open>The Jobs page filter\<close>

text \<open>
  The job snapshot of the client, \<^verbatim>\<open>interface IndexingJob\<close>. The status is the string the
  server sent.
\<close>

record IndexingJob =
  id' :: string
  source_type :: string
  source_url :: string
  status :: string
  total_files :: int
  processed_files :: int
  failed_files :: int
  current_file :: string
  progress_percent :: int
  started_at :: string
  completed_at :: "string option"
  error_message :: "string option"
  metadata :: "(string \<times> json) list"

definition STATUS_OPTIONS :: "string list" where
  "STATUS_OPTIONS = [''all'', ''pending'', ''processing'', ''completed'', ''failed'', ''cancelled'']"

text \<open>
  \<^verbatim>\<open>
  const filtered = jobs.filter((j) => {
    if (statusFilter === "all") return true;
    return j.status === statusFilter;
  });
  \<close>
\<close>

definition filtered :: "IndexingJob list \<Rightarrow> string \<Rightarrow> IndexingJob list" where
  "filtered jobs statusFilter =
     filter (\<lambda>j. if statusFilter = ''all'' then True else status j = statusFilter) jobs"

section \<open>The real-time client: \<^verbatim>\<open>class DashboardWebSocket\<close>\<close>

subsection \<open>Handler sets\<close>

text \<open>
  A handler is a JavaScript function object; \<open>hid\<close> is its identity. The registry
  \<^verbatim>\<open>Map<string, Set<MessageHandler>>\<close> holds a \<^verbatim>\<open>Set\<close> per event name. A \<^verbatim>\<open>Set\<close> is
  modelled as ECMAScript specifies it: the list of its entries in insertion order, where
  \<^verbatim>\<open>delete\<close> replaces an entry by the empty marker (\<open>None\<close>) and \<^verbatim>\<open>add\<close> appends a value
  that is not in the list. This is what makes \<^verbatim>\<open>forEach\<close> well defined when a callback
  deletes entries of the set that is being walked.
\<close>

type_synonym hid = nat
type_synonym handler_set = "hid option list"

definition set_add :: "hid \<Rightarrow> handler_set \<Rightarrow> handler_set" where
  "set_add h es = (if Some h \<in> set es then es else es @ [Some h])"

definition set_delete :: "hid \<Rightarrow> handler_set \<Rightarrow> handler_set" where
  "set_delete h es = map (\<lambda>e. if e = Some h then None else e) es"

text \<open>The members of a set, in insertion order.\<close>

definition members :: "handler_set \<Rightarrow> hid list" where
  "members es = concat (map (\<lambda>e. case e of None \<Rightarrow> [] | Some h \<Rightarrow> [h]) es)"

subsection \<open>The client and the browser around it\<close>

datatype readyState = CONNECTING | OPEN | CLOSING | CLOSED

text \<open>
  The fields of the class. \<open>ws\<close> and \<open>reconnectTimer\<close> are \<^verbatim>\<open>null\<close> (\<open>None\<close>) or refer
  to a socket (its index in \<open>sockets\<close>) or a timeout handle.
\<close>

record DashboardWebSocket =
  ws :: "nat option"
  handlers :: "string \<Rightarrow> handler_set option"
  reconnectTimer :: "nat option"
  reconnectDelay :: nat
  maxReconnectDelay :: nat
  url :: string

text \<open>
  The state of the browser that the class acts on: the ready state of every
  \<^verbatim>\<open>WebSocket\<close> object created so far, the pending timeouts (handle and delay in ms), the
  number of \<^verbatim>\<open>setTimeout\<close> calls so far, and the record of handler invocations (event
  name, handler, argument), oldest first.
\<close>

record world = DashboardWebSocket +
  sockets :: "readyState list"
  timers :: "(nat \<times> nat) list"
  timer_count :: nat
  calls :: "(string \<times> hid \<times> json) list"

text \<open>
  \<^verbatim>\<open>
  constructor() {
    const protocol = window.location.protocol === "https:" ? "wss:" : "ws:";
    this.url = `${protocol}//${window.location.host}/ws/dashboard`;
  }
  \<close>
  with the field initialisers of the class, in a browser with no socket and no timeout.
\<close>

definition new_DashboardWebSocket :: "string \<Rightarrow> string \<Rightarrow> world" where
  "new_DashboardWebSocket location_protocol location_host =
     \<lparr> ws = None,
       handlers = (\<lambda>event. None),
       reconnectTimer = None,
       reconnectDelay = 1000,
       maxReconnectDelay = 30000,
       url = (if location_protocol = ''https:'' then ''wss:'' else ''ws:'')
               @ ''//'' @ location_host @ ''/ws/dashboard'',
       sockets = [],
       timers = [],
       timer_count = 0,
       calls = [] \<rparr>"

subsection \<open>Browser primitives\<close>

definition readyState_of :: "world \<Rightarrow> nat \<Rightarrow> readyState option" where
  "readyState_of w s = (if s < length (sockets w) then Some (sockets w ! s) else None)"

text \<open>\<^verbatim>\<open>new WebSocket(url)\<close> when it does not throw: a new socket, connecting.\<close>

definition new_WebSocket :: "world \<Rightarrow> nat \<times> world" where
  "new_WebSocket w = (length (sockets w), w\<lparr>sockets := sockets w @ [CONNECTING]\<rparr>)"

text \<open>
  \<^verbatim>\<open>socket.close()\<close>: nothing on a socket that is closing or closed, otherwise the
  socket starts closing (its close event comes later, from the browser).
\<close>

definition WebSocket_close :: "nat \<Rightarrow> world \<Rightarrow> world" where
  "WebSocket_close s w =
     (case readyState_of w s of
        None \<Rightarrow> w
      | Some CLOSING \<Rightarrow> w
      | Some CLOSED \<Rightarrow> w
      | Some _ \<Rightarrow> w\<lparr>sockets := (sockets w)[s := CLOSING]\<rparr>)"

text \<open>
  \<^verbatim>\<open>setTimeout\<close> returns a handle greater than zero, different from every earlier one;
  \<^verbatim>\<open>clearTimeout\<close> removes the timeout with that handle if it is still pending.
\<close>

definition setTimeout :: "nat \<Rightarrow> world \<Rightarrow> nat \<times> world" where
  "setTimeout delay w =
     (Suc (timer_count w),
      w\<lparr>timers := timers w @ [(Suc (timer_count w), delay)], timer_count := Suc (timer_count w)\<rparr>)"

definition clearTimeout :: "nat \<Rightarrow> world \<Rightarrow> world" where
  "clearTimeout t w = w\<lparr>timers := filter (\<lambda>p. fst p \<noteq> t) (timers w)\<rparr>"

text \<open>\<^verbatim>\<open>if (this.reconnectTimer)\<close>: \<^verbatim>\<open>null\<close> and the number 0 are falsy.\<close>

fun truthy :: "nat option \<Rightarrow> bool" where
  "truthy None = False"
| "truthy (Some t) = (t \<noteq> 0)"

subsection \<open>Subscribing and detaching\<close>

text \<open>
  \<^verbatim>\<open>
  on(event: string, handler: MessageHandler): () => void {
    if (!this.handlers.has(event)) {
      this.handlers.set(event, new Set());
    }
    this.handlers.get(event)!.add(handler);
    return () => this.handlers.get(event)?.delete(handler);
  }
  \<close>
  \<open>detach event handler\<close> is the returned closure.
\<close>

definition detach :: "string \<Rightarrow> hid \<Rightarrow> world \<Rightarrow> world" where
  "detach event handler w =
     (case handlers w event of
        None \<Rightarrow> w
      | Some es \<Rightarrow> w\<lparr>handlers := (handlers w)(event \<mapsto> set_delete handler es)\<rparr>)"

definition on :: "string \<Rightarrow> hid \<Rightarrow> world \<Rightarrow> world \<times> (world \<Rightarrow> world)" where
  "on event handler w =
     (let w1 = (if handlers w event = None then w\<lparr>handlers := (handlers w)(event \<mapsto> [])\<rparr> else w);
          w2 = (case handlers w1 event of
                  None \<Rightarrow> w1
                | Some es \<Rightarrow> w1\<lparr>handlers := (handlers w1)(event \<mapsto> set_add handler es)\<rparr>)
      in (w2, detach event handler))"

subsection \<open>Handlers and dispatch\<close>

text \<open>
  What a handler does when it is called is not part of the class. A handler body is
  modelled by the calls it makes back into the client and by whether it throws: it calls
  detach functions that \<^verbatim>\<open>on\<close> returned, and it may throw. \<open>body h data\<close> is what handler
  \<open>h\<close> does when called with \<open>data\<close>.
\<close>

datatype haction = CallDetach string hid | Throw

type_synonym bodies = "hid \<Rightarrow> json \<Rightarrow> haction list"

text \<open>A call either returns or throws; the state it reached is kept in both cases.\<close>

datatype outcome = Normal world | Threw error world

fun state_of :: "outcome \<Rightarrow> world" where
  "state_of (Normal w) = w"
| "state_of (Threw e w) = w"

fun run_actions :: "haction list \<Rightarrow> world \<Rightarrow> outcome" where
  "run_actions [] w = Normal w"
| "run_actions (CallDetach event h # as) w = run_actions as (detach event h w)"
| "run_actions (Throw # as) w = Threw HandlerError w"

definition call_handler :: "bodies \<Rightarrow> string \<Rightarrow> hid \<Rightarrow> json \<Rightarrow> world \<Rightarrow> outcome" where
  "call_handler body event h data w =
     run_actions (body h data) (w\<lparr>calls := calls w @ [(event, h, data)]\<rparr>)"

text \<open>The number of entries, deleted ones included, of the set registered for an event.\<close>

definition entries_len :: "world \<Rightarrow> string \<Rightarrow> nat" where
  "entries_len w event = (case handlers w event of None \<Rightarrow> 0 | Some es \<Rightarrow> length es)"

lemma entries_len_detach: "entries_len (detach event h w) k = entries_len w k"
  by (simp add: detach_def entries_len_def set_delete_def split: option.splits)

lemma entries_len_run_actions:
  "run_actions as w = Normal w' \<Longrightarrow> entries_len w' k = entries_len w k"
proof (induction as w rule: run_actions.induct)
  case (1 w)
  then show ?case by simp
next
  case (2 event h as w)
  then show ?case by (simp add: entries_len_detach)
next
  case (3 as w)
  then show ?case by simp
qed

lemma entries_len_call_handler:
  "call_handler body event h data w = Normal w' \<Longrightarrow> entries_len w' k = entries_len w k"
  unfolding call_handler_def
  using entries_len_run_actions [of "body h data" "w\<lparr>calls := calls w @ [(event, h, data)]\<rparr>" w' k]
  by (simp add: entries_len_def)

text \<open>
  \<^verbatim>\<open>set.forEach((handler) => handler(data))\<close> on the set registered for \<open>event\<close>, from
  entry \<open>i\<close> on. As in ECMAScript, the walk goes by index over the entries as they are
  when each one is reached: an entry deleted before its turn is skipped. A handler that
  throws ends the walk, and the exception leaves \<^verbatim>\<open>forEach\<close>.
\<close>

function forEach_from :: "bodies \<Rightarrow> string \<Rightarrow> json \<Rightarrow> nat \<Rightarrow> world \<Rightarrow> outcome" where
  "forEach_from body event data i w =
     (case handlers w event of
        None \<Rightarrow> Normal w
      | Some es \<Rightarrow>
          if i < length es then
            (case es ! i of
               None \<Rightarrow> forEach_from body event data (Suc i) w
             | Some h \<Rightarrow>
                 (case call_handler body event h data w of
                    Threw e w' \<Rightarrow> Threw e w'
                  | Normal w' \<Rightarrow> forEach_from body event data (Suc i) w'))
          else Normal w)"
  by pat_completeness auto
termination
proof (relation "measure (\<lambda>(body, event, data, i, w). entries_len w event - i)")
  show "wf (measure (\<lambda>(body, event, data, i, w). entries_len w event - i))"
    by simp
next
  fix body :: bodies and event data i and w :: world and es
  assume "handlers w event = Some es" "i < length es"
  then show "((body, event, data, Suc i, w), (body, event, data, i, w))
      \<in> measure (\<lambda>(body, event, data, i, w). entries_len w event - i)"
    by (simp add: entries_len_def)
next
  fix body :: bodies and event data i and w w' :: world and es h
  assume "handlers w event = Some es" "i < length es"
    and "call_handler body event h data w = Normal w'"
  then show "((body, event, data, Suc i, w'), (body, event, data, i, w))
      \<in> measure (\<lambda>(body, event, data, i, w). entries_len w event - i)"
    using entries_len_call_handler [of body event h data w w' event]
    by (simp add: entries_len_def)
qed

declare forEach_from.simps [simp del]

text \<open>
  \<^verbatim>\<open>
  private emit(event: string, data: WebSocketMessage): void {
    this.handlers.get(event)?.forEach((handler) => handler(data));
  }
  \<close>
\<close>

definition emit :: "bodies \<Rightarrow> string \<Rightarrow> json \<Rightarrow> world \<Rightarrow> outcome" where
  "emit body event data w =
     (case handlers w event of
        None \<Rightarrow> Normal w
      | Some es \<Rightarrow> forEach_from body event data 0 w)"

subsection \<open>Connecting and reconnecting\<close>

text \<open>
  \<^verbatim>\<open>
  private scheduleReconnect(): void {
    if (this.reconnectTimer) return;
    this.reconnectTimer = setTimeout(() => { ... }, this.reconnectDelay);
  }
  \<close>
\<close>

definition scheduleReconnect :: "world \<Rightarrow> world" where
  "scheduleReconnect w =
     (if truthy (reconnectTimer w) then w
      else (case setTimeout (reconnectDelay w) w of
              (t, w') \<Rightarrow> w'\<lparr>reconnectTimer := Some t\<rparr>))"

text \<open>
  \<^verbatim>\<open>
  connect(): void {
    if (this.ws?.readyState === WebSocket.OPEN) return;
    try {
      this.ws = new WebSocket(this.url);
      this.ws.onopen = ...; this.ws.onmessage = ...;
      this.ws.onclose = ...; this.ws.onerror = ...;
    } catch {
      this.scheduleReconnect();
    }
  }
  \<close>
  Whether the \<^verbatim>\<open>WebSocket\<close> constructor throws is the browser's choice, the argument
  \<open>constructed\<close>. Every socket gets the same four callbacks, so they are not stored: an
  event of any socket runs the callback below.
\<close>

definition connect :: "bool \<Rightarrow> world \<Rightarrow> world" where
  "connect constructed w =
     (if (case ws w of None \<Rightarrow> False | Some s \<Rightarrow> readyState_of w s = Some OPEN) then w
      else if constructed then
        (case new_WebSocket w of (s, w') \<Rightarrow> w'\<lparr>ws := Some s\<rparr>)
      else scheduleReconnect w)"

text \<open>
  The callback that \<^verbatim>\<open>scheduleReconnect\<close> hands to \<^verbatim>\<open>setTimeout\<close>:
  \<^verbatim>\<open>
  () => {
    this.reconnectTimer = null;
    this.reconnectDelay = Math.min(this.reconnectDelay * 2, this.maxReconnectDelay);
    this.connect();
  }
  \<close>
\<close>

definition reconnect_callback :: "bool \<Rightarrow> world \<Rightarrow> world" where
  "reconnect_callback constructed w =
     connect constructed
       (w\<lparr>reconnectTimer := None,
          reconnectDelay := min (reconnectDelay w * 2) (maxReconnectDelay w)\<rparr>)"

text \<open>The payload of the link-state events.\<close>

definition connection_message :: "bool \<Rightarrow> json" where
  "connection_message connected =
     JObj [(''type'', JStr ''metrics_update''), (''data'', JObj [(''connected'', JBool connected)])]"

text \<open>
  \<^verbatim>\<open>
  this.ws.onopen = () => {
    this.reconnectDelay = 1000;
    this.emit("connection", { type: "metrics_update", data: { connected: true } });
  };
  \<close>
\<close>

definition onopen :: "bodies \<Rightarrow> world \<Rightarrow> outcome" where
  "onopen body w = emit body ''connection'' (connection_message True) (w\<lparr>reconnectDelay := 1000\<rparr>)"

text \<open>
  \<^verbatim>\<open>
  this.ws.onmessage = (event) => {
    try {
      const message: WebSocketMessage = JSON.parse(event.data);
      this.emit(message.type, message);
      this.emit("*", message);
    } catch {
      // ignore malformed messages
    }
  };
  \<close>
  \<open>JSON_parse\<close> is the library function: \<open>None\<close> when it throws. Every key of the
  registry is a string, so \<^verbatim>\<open>handlers.get\<close> of a type that is missing or not a string
  finds nothing. Whatever is thrown inside the \<^verbatim>\<open>try\<close> is swallowed; what was done before
  it stays done.
\<close>

definition onmessage :: "(string \<Rightarrow> json option) \<Rightarrow> bodies \<Rightarrow> string \<Rightarrow> world \<Rightarrow> world" where
  "onmessage JSON_parse body event_data w =
     (case JSON_parse event_data of
        None \<Rightarrow> w
      | Some message \<Rightarrow>
          (case get_prop message ''type'' of
             Inl e \<Rightarrow> w
           | Inr type \<Rightarrow>
               (case (case type of
                        Some (JStr k) \<Rightarrow> emit body k message w
                      | _ \<Rightarrow> Normal w) of
                  Threw e w' \<Rightarrow> w'
                | Normal w' \<Rightarrow> state_of (emit body ''*'' message w'))))"

text \<open>
  \<^verbatim>\<open>
  this.ws.onclose = () => {
    this.emit("connection", { type: "metrics_update", data: { connected: false } });
    this.scheduleReconnect();
  };
  this.ws.onerror = () => {
    this.ws?.close();
  };
  \<close>
\<close>

definition onclose :: "bodies \<Rightarrow> world \<Rightarrow> outcome" where
  "onclose body w =
     (case emit body ''connection'' (connection_message False) w of
        Threw e w' \<Rightarrow> Threw e w'
      | Normal w' \<Rightarrow> Normal (scheduleReconnect w'))"

definition onerror :: "world \<Rightarrow> world" where
  "onerror w = (case ws w of None \<Rightarrow> w | Some s \<Rightarrow> WebSocket_close s w)"

text \<open>
  \<^verbatim>\<open>
  disconnect(): void {
    if (this.reconnectTimer) {
      clearTimeout(this.reconnectTimer);
      this.reconnectTimer = null;
    }
    this.ws?.close();
    this.ws = null;
  }
  \<close>
\<close>

definition disconnect :: "world \<Rightarrow> world" where
  "disconnect w =
     (let w1 = (case reconnectTimer w of
                  None \<Rightarrow> w
                | Some t \<Rightarrow> if t \<noteq> 0 then (clearTimeout t w)\<lparr>reconnectTimer := None\<rparr> else w);
          w2 = (case ws w1 of None \<Rightarrow> w1 | Some s \<Rightarrow> WebSocket_close s w1)
      in w2\<lparr>ws := None\<rparr>)"

subsection \<open>What the browser and the application do to the client\<close>

text \<open>
  The browser delivers an event of socket \<open>s\<close> by setting the socket's ready state and
  running the callback. An open event comes to a connecting socket, a message event to an
  open one, error and close events to a socket that is not closed yet. An exception that
  leaves a callback is reported by the browser and the program goes on in the state
  reached. A pending timeout fires once and runs the reconnect callback (no other
  timeout is ever set by the class).
\<close>

definition open_event :: "bodies \<Rightarrow> nat \<Rightarrow> world \<Rightarrow> world" where
  "open_event body s w =
     (if readyState_of w s = Some CONNECTING
      then state_of (onopen body (w\<lparr>sockets := (sockets w)[s := OPEN]\<rparr>))
      else w)"

definition message_event ::
    "(string \<Rightarrow> json option) \<Rightarrow> bodies \<Rightarrow> nat \<Rightarrow> string \<Rightarrow> world \<Rightarrow> world" where
  "message_event JSON_parse body s event_data w =
     (if readyState_of w s = Some OPEN then onmessage JSON_parse body event_data w else w)"

definition error_event :: "nat \<Rightarrow> world \<Rightarrow> world" where
  "error_event s w =
     (case readyState_of w s of
        None \<Rightarrow> w
      | Some CLOSED \<Rightarrow> w
      | Some _ \<Rightarrow> onerror w)"

definition close_event :: "bodies \<Rightarrow> nat \<Rightarrow> world \<Rightarrow> world" where
  "close_event body s w =
     (case readyState_of w s of
        None \<Rightarrow> w
      | Some CLOSED \<Rightarrow> w
      | Some _ \<Rightarrow> state_of (onclose body (w\<lparr>sockets := (sockets w)[s := CLOSED]\<rparr>)))"

definition timeout_event :: "bool \<Rightarrow> nat \<Rightarrow> world \<Rightarrow> world" where
  "timeout_event constructed t w =
     (if t \<in> fst ` set (timers w)
      then reconnect_callback constructed (w\<lparr>timers := filter (\<lambda>p. fst p \<noteq> t) (timers w)\<rparr>)
      else w)"

text \<open>
  Everything that can happen to a client: the calls of the public methods and of the
  detach functions, and the events of the browser.
\<close>

datatype action =
    Connect bool
  | Disconnect
  | On string hid
  | Detach string hid
  | Open nat
  | Message nat string
  | Error nat
  | Close nat
  | Timeout bool nat

fun exec :: "(string \<Rightarrow> json option) \<Rightarrow> bodies \<Rightarrow> action \<Rightarrow> world \<Rightarrow> world" where
  "exec JSON_parse body (Connect constructed) w = connect constructed w"
| "exec JSON_parse body Disconnect w = disconnect w"
| "exec JSON_parse body (On event h) w = fst (on event h w)"
| "exec JSON_parse body (Detach event h) w = detach event h w"
| "exec JSON_parse body (Open s) w = open_event body s w"
| "exec JSON_parse body (Message s event_data) w = message_event JSON_parse body s event_data w"
| "exec JSON_parse body (Error s) w = error_event s w"
| "exec JSON_parse body (Close s) w = close_event body s w"
| "exec JSON_parse body (Timeout constructed t) w = timeout_event constructed t w"

fun run :: "(string \<Rightarrow> json option) \<Rightarrow> bodies \<Rightarrow> action list \<Rightarrow> world \<Rightarrow> world" where
  "run JSON_parse body [] w = w"
| "run JSON_parse body (a # as) w = run JSON_parse body as (exec JSON_parse body a w)"

subsection \<open>Failed connection attempts\<close>

text \<open>
  A connection attempt fails in one of three ways: the constructor throws, the socket is
  closed by the browser before it opens, or it reports an error first and is closed then.
  \<open>attempt\<close> is what starts the attempt: a call of \<^verbatim>\<open>connect\<close>, or the reconnect timeout.
\<close>

datatype failure = ConstructorThrows | SocketCloses | SocketErrors

definition attempt_fails ::
    "bodies \<Rightarrow> failure \<Rightarrow> (bool \<Rightarrow> world \<Rightarrow> world) \<Rightarrow> world \<Rightarrow> world" where
  "attempt_fails body f attempt w =
     (case f of
        ConstructorThrows \<Rightarrow> attempt False w
      | SocketCloses \<Rightarrow>
          (case ws (attempt True w) of
             None \<Rightarrow> attempt True w
           | Some s \<Rightarrow> close_event body s (attempt True w))
      | SocketErrors \<Rightarrow>
          (case ws (attempt True w) of
             None \<Rightarrow> attempt True w
           | Some s \<Rightarrow> close_event body s (error_event s (attempt True w))))"

text \<open>The pending reconnect timeout fires.\<close>

definition retry :: "bool \<Rightarrow> world \<Rightarrow> world" where
  "retry constructed w =
     (case reconnectTimer w of None \<Rightarrow> w | Some t \<Rightarrow> timeout_event constructed t w)"

fun failed_retries :: "bodies \<Rightarrow> failure list \<Rightarrow> world \<Rightarrow> world" where
  "failed_retries body [] w = w"
| "failed_retries body (f # fs) w = failed_retries body fs (attempt_fails body f retry w)"

text \<open>The delay of the timeout that \<open>reconnectTimer\<close> refers to, if it is pending.\<close>

definition pending_delay :: "world \<Rightarrow> nat option" where
  "pending_delay w = (case reconnectTimer w of None \<Rightarrow> None | Some t \<Rightarrow> map_of (timers w) t)"

text \<open>The socket of the client is open: \<^verbatim>\<open>this.ws?.readyState === WebSocket.OPEN\<close>.\<close>

definition ws_open :: "world \<Rightarrow> bool" where
  "ws_open w = (case ws w of None \<Rightarrow> False | Some s \<Rightarrow> readyState_of w s = Some OPEN)"

text \<open>Handler \<open>h\<close> is in the set registered for \<open>event\<close>.\<close>

definition subscribed :: "world \<Rightarrow> string \<Rightarrow> hid \<Rightarrow> bool" where
  "subscribed w event h = (case handlers w event of None \<Rightarrow> False | Some es \<Rightarrow> Some h \<in> set es)"

text \<open>The handlers registered for \<open>event\<close>, in the order of their registration.\<close>

definition registered :: "world \<Rightarrow> string \<Rightarrow> hid list" where
  "registered w event = (case handlers w event of None \<Rightarrow> [] | Some es \<Rightarrow> members es)"

text \<open>No handler throws, whatever it is called with.\<close>

definition never_throws :: "bodies \<Rightarrow> bool" where
  "never_throws body = (\<forall>h data. Throw \<notin> set (body h data))"

text \<open>The handlers in \<open>hs\<close> return without calling back into the client.\<close>

definition quiet :: "bodies \<Rightarrow> hid list \<Rightarrow> json \<Rightarrow> bool" where
  "quiet body hs data = (\<forall>h \<in> set hs. body h data = [])"

section \<open>The job lifecycle engine\<close>

text \<open>
  Modelled from the spec: the job lifecycle engine (\<^verbatim>\<open>reportProgress\<close>, \<^verbatim>\<open>completeJob\<close>,
  \<^verbatim>\<open>failJob\<close>, \<^verbatim>\<open>cancelJob\<close>) and its job store run in the backend, whose code is not
  among the sources; only the client's \<^verbatim>\<open>IndexingJob\<close> snapshot and the REST calls are.
  The definitions below follow the data model and the transition list of the
  specification: the five statuses, cumulative progress reports that are rejected when
  they go backwards, completion only when every file is accounted for, failure from
  \<open>processing\<close>, cancellation from \<open>pending\<close> or \<open>processing\<close>, and terminal states that
  reject every further call. Times are the caller's clock, a number.
\<close>

datatype job_status = Pending | Processing | Completed | Failed | Cancelled

record Job =
  job_id :: nat
  job_source :: "string \<times> string"
  job_status :: job_status
  job_total_files :: nat
  job_processed_files :: nat
  job_failed_files :: nat
  job_current_file :: "string option"
  job_started_at :: "nat option"
  job_completed_at :: "nat option"
  job_error_message :: "string option"
  job_metadata :: "(string \<times> string) list"

datatype reply = Accepted | Rejected string

fun terminal :: "job_status \<Rightarrow> bool" where
  "terminal Completed = True"
| "terminal Failed = True"
| "terminal Cancelled = True"
| "terminal s = False"

text \<open>
  Modelled from the spec: the transitions of one job, as the state machine of the
  specification lists them; \<open>now\<close> is the time of the call.
\<close>

definition report_progress ::
    "nat \<Rightarrow> nat \<Rightarrow> nat \<Rightarrow> string option \<Rightarrow> Job \<Rightarrow> reply \<times> Job" where
  "report_progress now cumulativeProcessed cumulativeFailed currentFile j =
     (if terminal (job_status j) then (Rejected ''job is in a terminal state'', j)
      else if cumulativeProcessed < job_processed_files j \<or> cumulativeFailed < job_failed_files j
      then (Rejected ''stale or duplicate report'', j)
      else (Accepted,
            j\<lparr>job_status := Processing,
              job_started_at := (if job_status j = Pending then Some now else job_started_at j),
              job_processed_files := cumulativeProcessed,
              job_failed_files := cumulativeFailed,
              job_current_file := currentFile\<rparr>))"

definition complete_job :: "nat \<Rightarrow> Job \<Rightarrow> reply \<times> Job" where
  "complete_job now j =
     (if terminal (job_status j) then (Rejected ''job is in a terminal state'', j)
      else if job_status j \<noteq> Processing then (Rejected ''job is not processing'', j)
      else if job_processed_files j + job_failed_files j \<noteq> job_total_files j
      then (Rejected ''not all files accounted for'', j)
      else (Accepted,
            j\<lparr>job_status := Completed, job_completed_at := Some now, job_current_file := None\<rparr>))"

definition fail_job :: "nat \<Rightarrow> string \<Rightarrow> Job \<Rightarrow> reply \<times> Job" where
  "fail_job now errorMessage j =
     (if terminal (job_status j) then (Rejected ''job is in a terminal state'', j)
      else if job_status j \<noteq> Processing then (Rejected ''job is not processing'', j)
      else (Accepted,
            j\<lparr>job_status := Failed, job_error_message := Some errorMessage,
              job_completed_at := Some now, job_current_file := None\<rparr>))"

definition cancel_job :: "nat \<Rightarrow> Job \<Rightarrow> reply \<times> Job" where
  "cancel_job now j =
     (if terminal (job_status j) then (Rejected ''job is in a terminal state'', j)
      else (Accepted,
            j\<lparr>job_status := Cancelled, job_completed_at := Some now, job_current_file := None\<rparr>))"

text \<open>
  Modelled from the spec: the interface of the engine, which addresses a job by its id in
  the job store. An accepted transition is written to the store; a rejected one, or a call
  for an unknown id, leaves the store as it is.
\<close>

type_synonym job_store = "nat \<Rightarrow> Job option"

definition on_job :: "(Job \<Rightarrow> reply \<times> Job) \<Rightarrow> nat \<Rightarrow> job_store \<Rightarrow> reply \<times> job_store" where
  "on_job transition jobId store =
     (case store jobId of
        None \<Rightarrow> (Rejected ''job not found'', store)
      | Some j \<Rightarrow>
          (case transition j of
             (Accepted, j') \<Rightarrow> (Accepted, store(jobId \<mapsto> j'))
           | (Rejected reason, j') \<Rightarrow> (Rejected reason, store)))"

definition reportProgress ::
    "nat \<Rightarrow> nat \<Rightarrow> nat \<Rightarrow> nat \<Rightarrow> string option \<Rightarrow> job_store \<Rightarrow> reply \<times> job_store" where
  "reportProgress now jobId cumulativeProcessed cumulativeFailed currentFile =
     on_job (report_progress now cumulativeProcessed cumulativeFailed currentFile) jobId"

definition completeJob :: "nat \<Rightarrow> nat \<Rightarrow> job_store \<Rightarrow> reply \<times> job_store" where
  "completeJob now jobId = on_job (complete_job now) jobId"

definition failJob :: "nat \<Rightarrow> nat \<Rightarrow> string \<Rightarrow> job_store \<Rightarrow> reply \<times> job_store" where
  "failJob now jobId errorMessage = on_job (fail_job now errorMessage) jobId"

definition cancelJob :: "nat \<Rightarrow> nat \<Rightarrow> job_store \<Rightarrow> reply \<times> job_store" where
  "cancelJob now jobId = on_job (cancel_job now) jobId"

text \<open>A call of the engine, and a sequence of calls run against a store.\<close>

datatype engine_call =
    ReportProgress nat nat nat nat "string option"
  | CompleteJob nat nat
  | FailJob nat nat string
  | CancelJob nat nat

fun engine :: "engine_call \<Rightarrow> job_store \<Rightarrow> reply \<times> job_store" where
  "engine (ReportProgress now jobId p f file) store = reportProgress now jobId p f file store"
| "engine (CompleteJob now jobId) store = completeJob now jobId store"
| "engine (FailJob now jobId msg) store = failJob now jobId msg store"
| "engine (CancelJob now jobId) store = cancelJob now jobId store"

fun engine_calls :: "engine_call list \<Rightarrow> job_store \<Rightarrow> job_store" where
  "engine_calls [] store = store"
| "engine_calls (c # cs) store = engine_calls cs (snd (engine c store))"

fun target :: "engine_call \<Rightarrow> nat" where
  "target (ReportProgress now jobId p f file) = jobId"
| "target (CompleteJob now jobId) = jobId"
| "target (FailJob now jobId msg) = jobId"
| "target (CancelJob now jobId) = jobId"

fun rejected :: "reply \<Rightarrow> bool" where
  "rejected (Rejected reason) = True"
| "rejected Accepted = False"

section \<open>Sample values\<close>

text \<open>Concrete inputs on which the properties below are evaluated.\<close>

definition sample_parse :: "string \<Rightarrow> json option" where
  \<open>sample_parse s =
     (if s = ''null'' then Some JNull
      else if s = ''{"type":"job_update","data":1}''
      then Some (JObj [(''type'', JStr ''job_update''), (''data'', JNum 1)])
      else if s = ''{"type":"*"}'' then Some (JObj [(''type'', JStr ''*'')])
      else None)\<close>

definition sample_job :: "string \<Rightarrow> string \<Rightarrow> IndexingJob" where
  "sample_job i st =
     \<lparr> id' = i, source_type = ''upload'', source_url = ''/uploads/batch'', status = st,
       total_files = 10, processed_files = 4, failed_files = 1, current_file = ''a.pdf'',
       progress_percent = 50, started_at = ''2024-01-15T00:00:00Z'', completed_at = None,
       error_message = None, metadata = [] \<rparr>"

definition done_job :: Job where
  "done_job =
     \<lparr> job_id = 7, job_source = (''upload'', ''/uploads/a''), job_status = Completed,
       job_total_files = 2, job_processed_files = 2, job_failed_files = 0,
       job_current_file = None, job_started_at = Some 1, job_completed_at = Some 5,
       job_error_message = None, job_metadata = [] \<rparr>"

text \<open>Handlers that only take note of the message, and a client just constructed.\<close>

definition no_bodies :: bodies where
  "no_bodies h data = []"

text \<open>Handlers that detach themselves from \<^verbatim>\<open>job_update\<close> when called.\<close>

definition once_bodies :: bodies where
  "once_bodies h data = [CallDetach ''job_update'' h]"

text \<open>Handler 1 throws, every other handler only takes note.\<close>

definition failing_bodies :: bodies where
  "failing_bodies h data = (if h = 1 then [Throw] else [])"

definition fresh :: world where
  "fresh = new_DashboardWebSocket ''http:'' ''localhost:3000''"

section \<open>Auxiliary predicates\<close>

text \<open>
  The reconnect timer and the browser agree: the pending timeouts are exactly the one that
  \<open>reconnectTimer\<close> refers to, if any, and its handle is not 0. The cap is the 30000 ms of
  the field initialiser.
\<close>

definition timer_consistent :: "world \<Rightarrow> bool" where
  "timer_consistent w =
     (maxReconnectDelay w = 30000 \<and>
      reconnectTimer w \<noteq> Some 0 \<and>
      map fst (timers w) = (case reconnectTimer w of None \<Rightarrow> [] | Some t \<Rightarrow> [t]))"

text \<open>\<open>w'\<close> differs from \<open>w\<close> in the registry and in the record of handler calls at most.\<close>

definition frame :: "world \<Rightarrow> world \<Rightarrow> bool" where
  "frame w w' = (w' = w\<lparr>handlers := handlers w', calls := calls w'\<rparr>)"

text \<open>How often handler \<open>h\<close> has been invoked for \<open>event\<close>.\<close>

definition invocations :: "world \<Rightarrow> string \<Rightarrow> hid \<Rightarrow> nat" where
  "invocations w event h = length (filter (\<lambda>c. fst c = event \<and> fst (snd c) = h) (calls w))"

text \<open>The call returned, it did not throw.\<close>

definition returns :: "outcome \<Rightarrow> bool" where
  "returns r = (case r of Normal w \<Rightarrow> True | Threw e w \<Rightarrow> False)"

text \<open>
  A reconnect timeout with delay \<open>d\<close> is pending and the client has no open socket;
  \<open>idle\<close>: no timeout is pending and the client has no open socket.
\<close>

definition backing_off :: "nat \<Rightarrow> world \<Rightarrow> bool" where
  "backing_off d w =
     (maxReconnectDelay w = 30000 \<and> reconnectDelay w = d \<and> \<not> ws_open w \<and>
      (\<exists>t. t \<noteq> 0 \<and> reconnectTimer w = Some t \<and> timers w = [(t, d)]))"

definition idle :: "world \<Rightarrow> bool" where
  "idle w = (maxReconnectDelay w = 30000 \<and> \<not> ws_open w \<and> reconnectTimer w = None \<and> timers w = [])"

text \<open>
  The kind of a message: its \<^verbatim>\<open>type\<close> field when that is a string. \<open>deliveries\<close> are the
  handler calls of one dispatch to the handlers registered for \<open>event\<close>, in order.
\<close>

definition kind :: "json \<Rightarrow> string option" where
  "kind message = (case get_prop message ''type'' of Inr (Some (JStr k)) \<Rightarrow> Some k | _ \<Rightarrow> None)"

definition deliveries :: "world \<Rightarrow> string \<Rightarrow> json \<Rightarrow> (string \<times> hid \<times> json) list" where
  "deliveries w event data = map (\<lambda>h. (event, h, data)) (registered w event)"

text \<open>
  The handlers in \<open>hs\<close> call, at most, the detach function of their own registration for
  \<open>event\<close> (handlers that unsubscribe themselves when they have seen a message).
\<close>

definition self_detaching :: "bodies \<Rightarrow> string \<Rightarrow> hid list \<Rightarrow> json \<Rightarrow> bool" where
  "self_detaching body event hs data = (\<forall>h \<in> set hs. set (body h data) \<subseteq> {CallDetach event h})"

text \<open>
  The handler calls that were made between state \<open>w\<close> and the later state \<open>w'\<close>.
\<close>

definition new_calls :: "world \<Rightarrow> world \<Rightarrow> (string \<times> hid \<times> json) list" where
  "new_calls w w' = drop (length (calls w)) (calls w')"

text \<open>
  State \<open>u\<close> is reached from \<open>w\<close> in a dispatch of \<open>data\<close> to the handlers of \<open>k\<close>, and for every
  handler called so far whose body calls the detach function of \<open>event\<close> and \<open>h\<close>: \<open>h\<close> is
  not subscribed to \<open>event\<close> in \<open>u\<close>, and \<open>h\<close> has not been called for \<open>event\<close> after that
  handler.
\<close>

definition detached_in_dispatch ::
    "bodies \<Rightarrow> string \<Rightarrow> json \<Rightarrow> string \<Rightarrow> hid \<Rightarrow> world \<Rightarrow> world \<Rightarrow> bool" where
  "detached_in_dispatch body k data event h w u =
     (\<exists>new. calls u = calls w @ new \<and>
        (\<forall>g. (k, g, data) \<in> set new \<and> CallDetach event h \<in> set (body g data)
           \<longrightarrow> \<not> subscribed u event h) \<and>
        (\<forall>pre post g. new = pre @ (k, g, data) # post \<and> CallDetach event h \<in> set (body g data)
           \<longrightarrow> (\<forall>d. (event, h, d) \<notin> set post)))"

section \<open>Properties of the list fetchers and of the Jobs page\<close>




text \<open>
  C8. The Jobs page shows, for the filter \<^verbatim>\<open>all\<close>, the list of jobs as it is, and for any
  other filter exactly the jobs whose status equals the filter, in their order in the
  list.
\<close>

theorem jobs_filter:
  "filtered jobs ''all'' = jobs \<and>
   (statusFilter \<noteq> ''all'' \<longrightarrow>
      filtered jobs statusFilter = filter (\<lambda>j. status j = statusFilter) jobs \<and>
      set (filtered jobs statusFilter) = {j \<in> set jobs. status j = statusFilter}) \<and>
   subseq (filtered jobs statusFilter) jobs"
  by (auto simp: filtered_def)

theorem jobs_filter_witness:
  "filtered [sample_job ''j1'' ''processing'', sample_job ''j2'' ''failed'',
              sample_job ''j3'' ''processing''] ''processing''
     = [sample_job ''j1'' ''processing'', sample_job ''j3'' ''processing'']"
  using jobs_filter [of "[sample_job ''j1'' ''processing'', sample_job ''j2'' ''failed'',
              sample_job ''j3'' ''processing'']" "''processing''"]
  by (simp add: sample_job_def)

section \<open>Properties of the real-time client\<close>

subsection \<open>Dispatch leaves everything but the registry alone\<close>

lemma frame_refl: "frame w w"
  by (simp add: frame_def)

lemma frame_trans: "frame w w' \<Longrightarrow> frame w' w'' \<Longrightarrow> frame w w''"
  unfolding frame_def
  by (metis (no_types, lifting) world.surjective world.update_convs(4) DashboardWebSocket.update_convs(2)
      world.select_convs DashboardWebSocket.select_convs)

lemma frame_detach: "frame w (detach event h w)"
  by (simp add: frame_def detach_def split: option.splits)

lemma frame_calls: "frame w (w\<lparr>calls := cs\<rparr>)"
  by (simp add: frame_def)

lemma run_actions_invariant:
  assumes "\<And>k g w. P w \<Longrightarrow> P (detach k g w)" and "P w"
  shows "P (state_of (run_actions as w))"
  using assms(2)
proof (induction as w rule: run_actions.induct)
  case (1 w)
  then show ?case by simp
next
  case (2 event h as w)
  then show ?case using assms(1) by simp
next
  case (3 as w)
  then show ?case by simp
qed

lemma forEach_from_invariant:
  assumes "\<And>h w. P w \<Longrightarrow> subscribed w event h \<Longrightarrow> P (state_of (call_handler body event h data w))"
    and "P w"
  shows "P (state_of (forEach_from body event data i w))"
  using assms
proof (induction body event data i w rule: forEach_from.induct)
  case (1 body event data i w)
  note step = "1.prems"(1) and Pw = "1.prems"(2)
  show ?case
  proof (cases "handlers w event")
    case None
    then show ?thesis using Pw by (simp add: forEach_from.simps [of body event data i w])
  next
    case (Some es)
    note es = this
    show ?thesis
    proof (cases "i < length es")
      case False
      then show ?thesis using es Pw by (simp add: forEach_from.simps [of body event data i w])
    next
      case True
      show ?thesis
      proof (cases "es ! i")
        case None
        then show ?thesis using es True "1.IH"(1) [OF es True None step Pw]
          by (simp add: forEach_from.simps [of body event data i w])
      next
        case (Some h)
        note h = this
        have sub: "subscribed w event h"
          using es True h by (auto simp: subscribed_def in_set_conv_nth)
        have P': "P (state_of (call_handler body event h data w))"
          using step [OF Pw sub] .
        show ?thesis
        proof (cases "call_handler body event h data w")
          case (Normal w')
          then show ?thesis
            using es True h P' "1.IH"(2) [OF es True h Normal step]
            by (simp add: forEach_from.simps [of body event data i w])
        next
          case (Threw e w')
          then show ?thesis
            using es True h P'
            by (simp add: forEach_from.simps [of body event data i w])
        qed
      qed
    qed
  qed
qed

lemma frame_fields:
  assumes "frame w w'"
  shows "ws w' = ws w" and "reconnectTimer w' = reconnectTimer w"
    and "reconnectDelay w' = reconnectDelay w" and "maxReconnectDelay w' = maxReconnectDelay w"
    and "url w' = url w" and "sockets w' = sockets w" and "timers w' = timers w"
    and "timer_count w' = timer_count w"
  using assms unfolding frame_def
  by (metis (no_types, lifting) DashboardWebSocket.select_convs DashboardWebSocket.update_convs(2)
      world.select_convs world.update_convs(4) world.surjective)+

lemma frame_call_handler: "frame w (state_of (call_handler body event h data w))"
  unfolding call_handler_def
  using run_actions_invariant [where P = "frame w" and as = "body h data"
        and w = "w\<lparr>calls := calls w @ [(event, h, data)]\<rparr>"]
    frame_trans frame_detach frame_calls
  by blast

lemma frame_forEach_from: "frame w (state_of (forEach_from body event data i w))"
  using forEach_from_invariant [where P = "frame w" and event = event and body = body
        and data = data and w = w and i = i] frame_trans frame_call_handler frame_refl
  by blast

lemma frame_emit: "frame w (state_of (emit body event data w))"
  by (simp add: emit_def frame_refl frame_forEach_from split: option.splits)

lemma frame_onmessage: "frame w (onmessage JSON_parse body event_data w)"
proof (cases "JSON_parse event_data")
  case None
  then show ?thesis by (simp add: onmessage_def frame_refl)
next
  case (Some message)
  show ?thesis
  proof (cases "get_prop message ''type''")
    case (Inl e)
    then show ?thesis using Some by (simp add: onmessage_def frame_refl)
  next
    case (Inr type)
    define first where "first = (case type of Some (JStr k) \<Rightarrow> emit body k message w | _ \<Rightarrow> Normal w)"
    have f1: "frame w (state_of first)"
      unfolding first_def
      by (simp add: frame_refl frame_emit split: option.splits json.splits)
    have res: "onmessage JSON_parse body event_data w =
        (case first of Threw e w' \<Rightarrow> w' | Normal w' \<Rightarrow> state_of (emit body ''*'' message w'))"
      using Some Inr by (simp add: onmessage_def first_def)
    show ?thesis
    proof (cases first)
      case (Normal w')
      then show ?thesis using res f1 frame_trans [OF _ frame_emit] by simp
    next
      case (Threw e w')
      then show ?thesis using res f1 by simp
    qed
  qed
qed

lemma frame_on: "frame w (fst (on event h w))"
  by (simp add: on_def frame_def Let_def split: option.splits)

lemma tc_frame: "frame w w' \<Longrightarrow> timer_consistent w' = timer_consistent w"
  by (simp add: timer_consistent_def frame_fields)

lemma tc_scheduleReconnect: "timer_consistent w \<Longrightarrow> timer_consistent (scheduleReconnect w)"
  by (auto simp: timer_consistent_def scheduleReconnect_def setTimeout_def split: option.splits)

lemma tc_WebSocket_close: "timer_consistent (WebSocket_close s w) = timer_consistent w"
  by (simp add: timer_consistent_def WebSocket_close_def split: option.splits readyState.splits)

lemma tc_connect: "timer_consistent w \<Longrightarrow> timer_consistent (connect constructed w)"
  using tc_scheduleReconnect [of w]
  by (auto simp: connect_def new_WebSocket_def timer_consistent_def split: option.splits)

lemma tc_disconnect: "timer_consistent w \<Longrightarrow> timer_consistent (disconnect w)"
proof -
  assume a: "timer_consistent w"
  define w1 where "w1 = (case reconnectTimer w of
                  None \<Rightarrow> w
                | Some t \<Rightarrow> if t \<noteq> 0 then (clearTimeout t w)\<lparr>reconnectTimer := None\<rparr> else w)"
  have "timer_consistent w1"
    using a unfolding w1_def
    by (auto simp: timer_consistent_def clearTimeout_def split: option.splits)
  then have "timer_consistent (case ws w1 of None \<Rightarrow> w1 | Some s \<Rightarrow> WebSocket_close s w1)"
    by (simp add: tc_WebSocket_close split: option.splits)
  then show ?thesis
    unfolding disconnect_def Let_def w1_def [symmetric]
    by (simp add: timer_consistent_def)
qed

lemma tc_open_event: "timer_consistent w \<Longrightarrow> timer_consistent (open_event body s w)"
proof -
  assume a: "timer_consistent w"
  have "timer_consistent (w\<lparr>sockets := (sockets w)[s := OPEN], reconnectDelay := 1000\<rparr>)"
    using a by (simp add: timer_consistent_def)
  then show ?thesis
    using a tc_frame [OF frame_emit]
    by (simp add: open_event_def onopen_def)
qed

lemma tc_message_event:
  "timer_consistent w \<Longrightarrow> timer_consistent (message_event JSON_parse body s event_data w)"
  using tc_frame [OF frame_onmessage] by (simp add: message_event_def)

lemma tc_error_event: "timer_consistent w \<Longrightarrow> timer_consistent (error_event s w)"
  by (simp add: error_event_def onerror_def tc_WebSocket_close split: option.splits readyState.splits)

lemma tc_onclose: "timer_consistent w \<Longrightarrow> timer_consistent (state_of (onclose body w))"
proof -
  assume a: "timer_consistent w"
  have e: "timer_consistent (state_of (emit body ''connection'' (connection_message False) w))"
    using a tc_frame [OF frame_emit] by simp
  show ?thesis
    using e tc_scheduleReconnect
    by (cases "emit body ''connection'' (connection_message False) w") (simp_all add: onclose_def)
qed

lemma tc_close_event: "timer_consistent w \<Longrightarrow> timer_consistent (close_event body s w)"
proof -
  assume a: "timer_consistent w"
  have "timer_consistent (w\<lparr>sockets := (sockets w)[s := CLOSED]\<rparr>)"
    using a by (simp add: timer_consistent_def)
  then show ?thesis
    using a tc_onclose by (simp add: close_event_def split: option.splits readyState.splits)
qed

lemma tc_timeout_event: "timer_consistent w \<Longrightarrow> timer_consistent (timeout_event constructed t w)"
proof (cases "t \<in> fst ` set (timers w)")
  case False
  assume "timer_consistent w"
  then show ?thesis using False by (simp add: timeout_event_def)
next
  case True
  assume a: "timer_consistent w"
  have "timer_consistent (w\<lparr>timers := filter (\<lambda>p. fst p \<noteq> t) (timers w), reconnectTimer := None,
          reconnectDelay := min (reconnectDelay (w\<lparr>timers := filter (\<lambda>p. fst p \<noteq> t) (timers w)\<rparr>) * 2)
             (maxReconnectDelay (w\<lparr>timers := filter (\<lambda>p. fst p \<noteq> t) (timers w)\<rparr>))\<rparr>)"
    using a True
    by (auto simp: timer_consistent_def split: option.splits)
  then show ?thesis
    using True tc_connect by (simp add: timeout_event_def reconnect_callback_def)
qed

lemma tc_exec: "timer_consistent w \<Longrightarrow> timer_consistent (exec JSON_parse body a w)"
  using tc_frame [OF frame_on] tc_frame [OF frame_detach]
  by (cases a)
     (simp_all add: tc_connect tc_disconnect tc_open_event tc_message_event tc_error_event
        tc_close_event tc_timeout_event)

lemma tc_run: "timer_consistent w \<Longrightarrow> timer_consistent (run JSON_parse body as w)"
  by (induction as arbitrary: w) (simp_all add: tc_exec)

lemma tc_new: "timer_consistent (new_DashboardWebSocket p h)"
  by (simp add: timer_consistent_def new_DashboardWebSocket_def)

subsection \<open>Failed attempts and the reconnect timeout\<close>

lemma returns_run_actions: "Throw \<notin> set as \<Longrightarrow> returns (run_actions as w)"
  by (induction as w rule: run_actions.induct) (simp_all add: returns_def)

lemma returns_call_handler: "never_throws body \<Longrightarrow> returns (call_handler body event h data w)"
  by (simp add: call_handler_def never_throws_def returns_run_actions)

lemma returns_forEach_from: "never_throws body \<Longrightarrow> returns (forEach_from body event data i w)"
proof (induction body event data i w rule: forEach_from.induct)
  case (1 body event data i w)
  note nt = "1.prems"
  show ?case
  proof (cases "handlers w event")
    case None
    then show ?thesis by (simp add: forEach_from.simps [of body event data i w] returns_def)
  next
    case (Some es)
    note es = this
    show ?thesis
    proof (cases "i < length es")
      case False
      then show ?thesis using es by (simp add: forEach_from.simps [of body event data i w] returns_def)
    next
      case True
      show ?thesis
      proof (cases "es ! i")
        case None
        then show ?thesis using es True "1.IH"(1) [OF es True None nt]
          by (simp add: forEach_from.simps [of body event data i w])
      next
        case (Some h)
        note h = this
        obtain w' where w': "call_handler body event h data w = Normal w'"
          using returns_call_handler [OF nt, of event h data w]
          by (cases "call_handler body event h data w") (simp_all add: returns_def)
        show ?thesis
          using es True h w' "1.IH"(2) [OF es True h w' nt]
          by (simp add: forEach_from.simps [of body event data i w])
      qed
    qed
  qed
qed

lemma returns_emit: "never_throws body \<Longrightarrow> returns (emit body event data w)"
  by (simp add: emit_def returns_forEach_from split: option.splits) (simp add: returns_def)

lemma returns_state: "returns r \<Longrightarrow> r = Normal (state_of r)"
  by (cases r) (simp_all add: returns_def)

lemma onclose_never_throws:
  assumes "never_throws body"
  shows "\<exists>w'. frame w w' \<and> onclose body w = Normal (scheduleReconnect w')"
proof -
  let ?r = "emit body ''connection'' (connection_message False) w"
  have "?r = Normal (state_of ?r)" using returns_state [OF returns_emit [OF assms]] .
  then have "onclose body w = Normal (scheduleReconnect (state_of ?r))"
    by (cases ?r) (simp_all add: onclose_def)
  then show ?thesis using frame_emit by blast
qed

lemma backing_off_pending: "backing_off d w \<Longrightarrow> pending_delay w = Some d"
  by (auto simp: backing_off_def pending_delay_def)

lemma idle_scheduleReconnect: "idle w \<Longrightarrow> backing_off (reconnectDelay w) (scheduleReconnect w)"
  by (auto simp: idle_def backing_off_def scheduleReconnect_def setTimeout_def ws_open_def
      readyState_of_def split: option.splits if_splits)

lemma idle_frame: "frame w w' \<Longrightarrow> idle w' = idle w"
  by (simp add: idle_def ws_open_def readyState_of_def frame_fields split: option.splits)

lemma close_new_socket:
  assumes nt: "never_throws body" and i: "idle w" and r: "r \<noteq> CLOSED"
  shows "backing_off (reconnectDelay w)
           (close_event body (length (sockets w)) (w\<lparr>sockets := sockets w @ [r], ws := Some (length (sockets w))\<rparr>))"
proof -
  let ?s = "length (sockets w)"
  let ?w1 = "w\<lparr>sockets := sockets w @ [r], ws := Some ?s\<rparr>"
  let ?w2 = "?w1\<lparr>sockets := (sockets ?w1)[?s := CLOSED]\<rparr>"
  obtain w3 where f: "frame ?w2 w3" and oc: "onclose body ?w2 = Normal (scheduleReconnect w3)"
    using onclose_never_throws [OF nt] by blast
  have ce: "close_event body ?s ?w1 = scheduleReconnect w3"
    using r oc by (simp add: close_event_def readyState_of_def split: readyState.splits)
  have "idle ?w2"
    using i by (simp add: idle_def ws_open_def readyState_of_def)
  then have "idle w3" using idle_frame [OF f] by simp
  moreover have "reconnectDelay w3 = reconnectDelay w"
    using frame_fields(3) [OF f] by simp
  ultimately show ?thesis
    using ce idle_scheduleReconnect [of w3] by simp
qed

lemma attempt_fails_idle:
  assumes nt: "never_throws body" and i: "idle w"
  shows "backing_off (reconnectDelay w) (attempt_fails body f connect w)"
proof -
  have no: "\<not> ws_open w" using i by (simp add: idle_def)
  have cf: "connect False w = scheduleReconnect w"
    using no by (simp add: connect_def ws_open_def)
  have ct: "connect True w = w\<lparr>sockets := sockets w @ [CONNECTING], ws := Some (length (sockets w))\<rparr>"
    using no by (simp add: connect_def ws_open_def new_WebSocket_def)
  show ?thesis
  proof (cases f)
    case ConstructorThrows
    then show ?thesis using cf idle_scheduleReconnect [OF i] by (simp add: attempt_fails_def)
  next
    case SocketCloses
    then show ?thesis
      using close_new_socket [OF nt i, of CONNECTING] ct by (simp add: attempt_fails_def)
  next
    case SocketErrors
    have "error_event (length (sockets w)) (connect True w)
          = w\<lparr>sockets := sockets w @ [CLOSING], ws := Some (length (sockets w))\<rparr>"
      by (simp add: ct error_event_def onerror_def WebSocket_close_def readyState_of_def)
    then show ?thesis
      using SocketErrors close_new_socket [OF nt i, of CLOSING] ct by (simp add: attempt_fails_def)
  qed
qed

lemma ws_open_cong: "ws w' = ws w \<Longrightarrow> sockets w' = sockets w \<Longrightarrow> ws_open w' = ws_open w"
  by (simp add: ws_open_def readyState_of_def split: option.splits)

lemma retry_backing_off:
  assumes "backing_off d w"
  shows "\<exists>wi. idle wi \<and> reconnectDelay wi = min (d * 2) 30000 \<and> (\<forall>c. retry c w = connect c wi)"
proof -
  obtain t where t: "t \<noteq> 0" "reconnectTimer w = Some t" "timers w = [(t, d)]"
    using assms by (auto simp: backing_off_def)
  let ?wi = "w\<lparr>timers := [], reconnectTimer := None, reconnectDelay := min (d * 2) 30000\<rparr>"
  have "ws_open ?wi = ws_open w"
    by (rule ws_open_cong) simp_all
  then have "idle ?wi"
    using assms by (simp add: backing_off_def idle_def)
  moreover have "retry c w = connect c ?wi" for c
    using t assms by (simp add: retry_def timeout_event_def reconnect_callback_def backing_off_def)
  ultimately show ?thesis by auto
qed

lemma attempt_fails_backing_off:
  assumes nt: "never_throws body" and b: "backing_off d w"
  shows "backing_off (min (d * 2) 30000) (attempt_fails body f retry w)"
proof -
  obtain wi where wi: "idle wi" "reconnectDelay wi = min (d * 2) 30000" "\<And>c. retry c w = connect c wi"
    using retry_backing_off [OF b] by blast
  have "attempt_fails body f retry w = attempt_fails body f connect wi"
    unfolding attempt_fails_def wi(3) by (rule refl)
  then show ?thesis using attempt_fails_idle [OF nt wi(1), of f] wi(2) by simp
qed

lemma doubling_capped: "min (min (d * 2) 30000 * 2 ^ n) (30000::nat) = min (d * 2 ^ Suc n) 30000"
proof (cases "d * 2 \<le> 30000")
  case True
  then show ?thesis by (simp add: min_def mult.assoc)
next
  case False
  have p: "(1::nat) \<le> 2 ^ n" by simp
  have "30000 * 1 \<le> 30000 * (2::nat) ^ n" using p by (rule mult_le_mono2)
  then have l: "min (30000 * 2 ^ n) (30000::nat) = 30000" by simp
  have a: "30000 \<le> d * 2" using False by linarith
  have b: "d * 2 * 1 \<le> d * 2 * 2 ^ n" using p by (rule mult_le_mono2)
  have "30000 \<le> d * 2 * 2 ^ n" using a b by (metis le_trans mult.right_neutral)
  then have "30000 \<le> d * 2 ^ Suc n" by (simp only: power_Suc mult.assoc)
  then have r: "min (d * 2 ^ Suc n) 30000 = 30000" by (rule min.absorb2)
  have "min (d * 2) 30000 = 30000" using a by (rule min.absorb2)
  then show ?thesis using l r by (simp only:)
qed

lemma failed_retries_backing_off:
  "never_throws body \<Longrightarrow> d \<le> 30000 \<Longrightarrow> backing_off d w \<Longrightarrow>
     backing_off (min (d * 2 ^ length fs) 30000) (failed_retries body fs w)"
proof (induction fs arbitrary: d w)
  case Nil
  then show ?case by simp
next
  case (Cons f fs)
  have "min (d * 2) 30000 \<le> 30000" by simp
  then have "backing_off (min (min (d * 2) 30000 * 2 ^ length fs) 30000)
          (failed_retries body fs (attempt_fails body f retry w))"
    using Cons.IH [OF Cons.prems(1) _ attempt_fails_backing_off [OF Cons.prems(1) Cons.prems(3)]]
    by blast
  then show ?case by (simp only: doubling_capped failed_retries.simps length_Cons)
qed

lemma close_current_socket:
  assumes nt: "never_throws body" and m: "maxReconnectDelay w = 30000"
    and t: "reconnectTimer w = None" "timers w = []"
    and s: "ws w = Some s" "s < length (sockets w)" "sockets w ! s \<noteq> CLOSED"
  shows "backing_off (reconnectDelay w) (close_event body s w)"
proof -
  let ?w2 = "w\<lparr>sockets := (sockets w)[s := CLOSED]\<rparr>"
  obtain w3 where f: "frame ?w2 w3" and oc: "onclose body ?w2 = Normal (scheduleReconnect w3)"
    using onclose_never_throws [OF nt] by blast
  have ce: "close_event body s w = scheduleReconnect w3"
    using s oc by (simp add: close_event_def readyState_of_def split: readyState.splits)
  have "idle ?w2"
    using m t s by (simp add: idle_def ws_open_def readyState_of_def)
  then have "idle w3" using idle_frame [OF f] by simp
  moreover have "reconnectDelay w3 = reconnectDelay w"
    using frame_fields(3) [OF f] by simp
  ultimately show ?thesis
    using ce idle_scheduleReconnect [of w3] by simp
qed

subsection \<open>Malformed messages, and connecting when connected\<close>

text \<open>
  C9. A message whose payload is not valid JSON is dropped: \<^verbatim>\<open>onmessage\<close> returns with
  the client and the browser exactly as they were, so no handler was invoked, and the
  registry, the socket, the reconnect timer and the reconnect delay are unchanged.
\<close>

theorem malformed_message_dropped:
  "JSON_parse event_data = None \<Longrightarrow>
     onmessage JSON_parse body event_data w = w \<and>
     message_event JSON_parse body s event_data w = w"
  by (simp add: onmessage_def message_event_def)

theorem malformed_message_dropped_witness:
  "onmessage sample_parse no_bodies ''{oops'' (fst (on ''*'' 0 fresh)) = fst (on ''*'' 0 fresh)"
  using malformed_message_dropped [of sample_parse "''{oops''" no_bodies "fst (on ''*'' 0 fresh)" 0]
  by (simp add: sample_parse_def)

text \<open>
  C10. \<^verbatim>\<open>connect\<close> on a client whose socket is open returns at once: no socket is
  created, no timeout is set, and no field of the client changes.
\<close>

theorem connect_open_noop:
  "ws_open w \<Longrightarrow> connect constructed w = w"
  by (simp add: ws_open_def connect_def)

theorem connect_open_noop_witness:
  "ws_open (open_event no_bodies 0 (connect True fresh)) \<and>
   connect True (open_event no_bodies 0 (connect True fresh))
     = open_event no_bodies 0 (connect True fresh)"
proof -
  have o: "ws_open (open_event no_bodies 0 (connect True fresh))"
    by (simp add: ws_open_def open_event_def connect_def fresh_def new_DashboardWebSocket_def
        new_WebSocket_def readyState_of_def onopen_def emit_def)
  show ?thesis using o connect_open_noop [OF o, of True] by simp
qed

subsection \<open>Reconnecting\<close>

text \<open>
  C1 (as amended). Take any state that a client can reach in which no reconnect timeout
  is pending and the reconnect delay has its initial value of 1000 ms (as in a new
  client, and as \<^verbatim>\<open>onopen\<close> sets it), and handlers that do not throw. When in that state
  a call of \<^verbatim>\<open>connect\<close> on a client without an open socket fails (the constructor throws,
  or the new socket closes, with or without an error event), or when the client's
  current socket, not closed yet, is closed by the browser, the reconnect timeout is set
  with the initial delay; and when then the attempts started by the next \<open>N\<close> reconnect
  timeouts fail one after the other, with nothing else happening to the client in
  between, the timeout pending afterwards has the delay \<open>min (1000 * 2 ^ N) 30000\<close>. So
  the first retry waits the initial delay, not twice the initial delay, and each
  further consecutive failure of a retry doubles the delay up to the cap of 30000 ms.
  \<^verbatim>\<open>onopen\<close> sets the delay to 1000 ms.
\<close>

theorem reconnect_backoff:
  assumes "never_throws body"
    and "w = run JSON_parse body acts (new_DashboardWebSocket location_protocol location_host)"
    and "reconnectTimer w = None" and "reconnectDelay w = 1000"
  shows "(\<not> ws_open w \<longrightarrow>
            pending_delay (failed_retries body fs (attempt_fails body f connect w))
              = Some (min (1000 * 2 ^ length fs) 30000)) \<and>
         (ws w = Some s \<and> s < length (sockets w) \<and> sockets w ! s \<noteq> CLOSED \<longrightarrow>
            pending_delay (failed_retries body fs (close_event body s w))
              = Some (min (1000 * 2 ^ length fs) 30000)) \<and>
         reconnectDelay (state_of (onopen body w')) = 1000"
proof -
  have tc: "timer_consistent w"
    using assms(2) tc_run [OF tc_new] by simp
  then have m: "maxReconnectDelay w = 30000" and ts: "timers w = []"
    using assms(3) by (simp_all add: timer_consistent_def)
  have a: "pending_delay (failed_retries body fs (attempt_fails body f connect w))
              = Some (min (1000 * 2 ^ length fs) 30000)" if "\<not> ws_open w"
  proof -
    have "idle w" using that m ts assms(3) by (simp add: idle_def)
    then have "backing_off 1000 (attempt_fails body f connect w)"
      using attempt_fails_idle [OF assms(1), of w f] assms(4) by simp
    then show ?thesis
      using failed_retries_backing_off [OF assms(1), of 1000 _ fs] backing_off_pending by simp
  qed
  have b: "pending_delay (failed_retries body fs (close_event body s w))
              = Some (min (1000 * 2 ^ length fs) 30000)"
    if "ws w = Some s" "s < length (sockets w)" "sockets w ! s \<noteq> CLOSED"
  proof -
    have "backing_off 1000 (close_event body s w)"
      using close_current_socket [OF assms(1) m assms(3) ts that] assms(4) by simp
    then show ?thesis
      using failed_retries_backing_off [OF assms(1), of 1000 _ fs] backing_off_pending by simp
  qed
  have c: "reconnectDelay (state_of (onopen body w')) = 1000"
    using frame_fields(3) [OF frame_emit, of body "''connection''" "connection_message True"
        "w'\<lparr>reconnectDelay := 1000\<rparr>"]
    by (simp add: onopen_def)
  show ?thesis using a b c by blast
qed

theorem reconnect_backoff_witness:
  "pending_delay (failed_retries no_bodies [SocketCloses, ConstructorThrows, SocketErrors]
      (attempt_fails no_bodies SocketErrors connect (run sample_parse no_bodies [On ''connection'' 0] fresh)))
     = Some 8000 \<and>
   pending_delay (failed_retries no_bodies [SocketCloses, ConstructorThrows, SocketErrors, SocketCloses, SocketCloses]
      (attempt_fails no_bodies SocketErrors connect (run sample_parse no_bodies [On ''connection'' 0] fresh)))
     = Some 30000"
proof -
  let ?w = "run sample_parse no_bodies [On ''connection'' 0] fresh"
  have nt: "never_throws no_bodies" by (simp add: never_throws_def no_bodies_def)
  have w: "?w = run sample_parse no_bodies [On ''connection'' 0] (new_DashboardWebSocket ''http:'' ''localhost:3000'')"
    by (simp add: fresh_def)
  have t: "reconnectTimer ?w = None" and d: "reconnectDelay ?w = 1000" and o: "\<not> ws_open ?w"
    by (simp_all add: fresh_def new_DashboardWebSocket_def on_def ws_open_def)
  show ?thesis
    using reconnect_backoff [OF nt w t d, of "[SocketCloses, ConstructorThrows, SocketErrors]" SocketErrors]
      reconnect_backoff [OF nt w t d,
        of "[SocketCloses, ConstructorThrows, SocketErrors, SocketCloses, SocketCloses]" SocketErrors] o
    by simp
qed

text \<open>
  The claim as stated fails at \<open>N = 1\<close>: after the first failed attempt of a new client the
  reconnect timeout is set with 1000 ms, not with \<open>min (1000 * 2 ^ 1) 30000 = 2000\<close> ms.
\<close>

theorem backoff_first_delay_counterexample:
  "pending_delay (attempt_fails no_bodies SocketCloses connect fresh) = Some 1000 \<and>
   Some 1000 \<noteq> Some (min (1000 * 2 ^ (1::nat)) (30000::nat))"
  by (simp add: attempt_fails_def connect_def fresh_def new_DashboardWebSocket_def new_WebSocket_def
      readyState_of_def close_event_def onclose_def emit_def scheduleReconnect_def setTimeout_def
      pending_delay_def)

text \<open>
  The two conditions on the state matter. A reconnect timeout that was set for an older
  socket and fires after \<^verbatim>\<open>onopen\<close> doubles the delay of a connected client, and calls of
  \<^verbatim>\<open>connect\<close> that fail while a timeout is pending leave the pending delay as it is.
\<close>

lemma stale_timeout_after_open:
  "ws_open (run sample_parse no_bodies
      [Connect True, Disconnect, Connect True, Close 0, Open 1, Timeout True 1] fresh) \<and>
   reconnectTimer (run sample_parse no_bodies
      [Connect True, Disconnect, Connect True, Close 0, Open 1, Timeout True 1] fresh) = None \<and>
   reconnectDelay (run sample_parse no_bodies
      [Connect True, Disconnect, Connect True, Close 0, Open 1, Timeout True 1] fresh) = 2000"
  by (simp add: fresh_def new_DashboardWebSocket_def connect_def disconnect_def new_WebSocket_def
      readyState_of_def WebSocket_close_def close_event_def open_event_def onclose_def onopen_def
      emit_def scheduleReconnect_def setTimeout_def timeout_event_def reconnect_callback_def
      ws_open_def Let_def)

lemma repeated_connect_keeps_delay:
  "pending_delay (run sample_parse no_bodies [Connect False, Connect False, Connect False] fresh)
     = Some 1000"
  by (simp add: fresh_def new_DashboardWebSocket_def connect_def scheduleReconnect_def
      setTimeout_def pending_delay_def)

text \<open>
  C4. In every state that a client can reach, at most one timeout is pending, it is
  the one \<open>reconnectTimer\<close> refers to, and while it is pending \<^verbatim>\<open>scheduleReconnect\<close>
  changes nothing: it sets no second timeout and leaves the pending one and its delay as
  they are.
\<close>

theorem one_reconnect_timer:
  assumes "w = run JSON_parse body acts (new_DashboardWebSocket location_protocol location_host)"
  shows "length (timers w) \<le> 1 \<and>
         map fst (timers w) = (case reconnectTimer w of None \<Rightarrow> [] | Some t \<Rightarrow> [t]) \<and>
         (timers w \<noteq> [] \<longrightarrow> scheduleReconnect w = w)"
proof -
  have tc: "timer_consistent w"
    using assms tc_run [OF tc_new] by simp
  then have m: "map fst (timers w) = (case reconnectTimer w of None \<Rightarrow> [] | Some t \<Rightarrow> [t])"
    by (simp add: timer_consistent_def)
  then have "length (map fst (timers w)) \<le> 1" by (simp split: option.splits)
  then have l: "length (timers w) \<le> 1" by simp
  have "scheduleReconnect w = w" if "timers w \<noteq> []"
  proof -
    have "reconnectTimer w \<noteq> None" using m that by (auto split: option.splits)
    then obtain t where "reconnectTimer w = Some t" by blast
    moreover have "t \<noteq> 0" using tc calculation by (auto simp: timer_consistent_def)
    ultimately show ?thesis by (simp add: scheduleReconnect_def)
  qed
  then show ?thesis using l m by blast
qed

theorem one_reconnect_timer_witness:
  "timers (run sample_parse no_bodies [Connect True, Error 0, Close 0] fresh) \<noteq> [] \<and>
   length (timers (run sample_parse no_bodies [Connect True, Error 0, Close 0] fresh)) \<le> 1 \<and>
   scheduleReconnect (run sample_parse no_bodies [Connect True, Error 0, Close 0] fresh)
     = run sample_parse no_bodies [Connect True, Error 0, Close 0] fresh"
proof -
  have p: "timers (run sample_parse no_bodies [Connect True, Error 0, Close 0] fresh) \<noteq> []"
    by (simp add: fresh_def new_DashboardWebSocket_def connect_def new_WebSocket_def readyState_of_def
        error_event_def onerror_def WebSocket_close_def close_event_def onclose_def emit_def
        scheduleReconnect_def setTimeout_def)
  show ?thesis
    using p one_reconnect_timer [of "run sample_parse no_bodies [Connect True, Error 0, Close 0] fresh"
        sample_parse no_bodies "[Connect True, Error 0, Close 0]" "''http:''" "''localhost:3000''"]
    by (simp add: fresh_def)
qed

subsection \<open>Dispatch to handlers that only take note\<close>

lemma members_Nil [simp]: "members [] = []"
  by (simp add: members_def)

lemma members_Cons [simp]:
  "members (e # es) = (case e of None \<Rightarrow> members es | Some h \<Rightarrow> h # members es)"
  by (simp add: members_def split: option.splits)

lemma members_append [simp]: "members (xs @ ys) = members xs @ members ys"
  by (simp add: members_def)

lemma set_members: "set (members es) = {h. Some h \<in> set es}"
  by (induction es) (auto split: option.splits)

lemma call_handler_quiet:
  "body h data = [] \<Longrightarrow>
     call_handler body event h data w = Normal (w\<lparr>calls := calls w @ [(event, h, data)]\<rparr>)"
  by (simp add: call_handler_def)

lemma forEach_from_quiet:
  "handlers w event = Some es \<Longrightarrow> n = length es - i \<Longrightarrow> quiet body (members (drop i es)) data \<Longrightarrow>
     forEach_from body event data i w
       = Normal (w\<lparr>calls := calls w @ map (\<lambda>h. (event, h, data)) (members (drop i es))\<rparr>)"
proof (induction n arbitrary: i w)
  case 0
  then show ?case by (simp add: forEach_from.simps [of body event data i w])
next
  case (Suc n)
  then have i: "i < length es" by simp
  have d: "drop i es = es ! i # drop (Suc i) es"
    using i by (simp add: Cons_nth_drop_Suc)
  have n: "n = length es - Suc i" using Suc.prems(2) by simp
  show ?case
  proof (cases "es ! i")
    case None
    then have q: "quiet body (members (drop (Suc i) es)) data"
      using Suc.prems(3) d by simp
    show ?thesis
      using Suc.IH [OF Suc.prems(1) n q] Suc.prems(1) i None d
      by (simp add: forEach_from.simps [of body event data i w])
  next
    case (Some h)
    then have m: "members (drop i es) = h # members (drop (Suc i) es)"
      using d by simp
    have b: "body h data = []" and q: "quiet body (members (drop (Suc i) es)) data"
      using Suc.prems(3) m by (simp_all add: quiet_def)
    let ?w1 = "w\<lparr>calls := calls w @ [(event, h, data)]\<rparr>"
    have h1: "handlers ?w1 event = Some es" using Suc.prems(1) by simp
    show ?thesis
      using Suc.IH [OF h1 n q] Suc.prems(1) i Some m b call_handler_quiet [where body = body and h = h and data = data and event = event and w = w]
      by (simp add: forEach_from.simps [of body event data i w])
  qed
qed

lemma emit_quiet:
  assumes "quiet body (registered w event) data"
  shows "emit body event data w = Normal (w\<lparr>calls := calls w @ deliveries w event data\<rparr>)"
proof (cases "handlers w event")
  case None
  then show ?thesis by (simp add: emit_def deliveries_def registered_def)
next
  case (Some es)
  then show ?thesis
    using forEach_from_quiet [where w = w and event = event and es = es and i = 0 and body = body
        and data = data and n = "length es - 0"] assms
    by (simp add: emit_def deliveries_def registered_def)
qed

lemma registered_calls [simp]: "registered (w\<lparr>calls := cs\<rparr>) event = registered w event"
  by (simp add: registered_def)

lemma deliveries_calls [simp]: "deliveries (w\<lparr>calls := cs\<rparr>) event data = deliveries w event data"
  by (simp add: deliveries_def)

lemma onmessage_quiet:
  assumes p: "JSON_parse event_data = Some message" and nn: "message \<noteq> JNull"
    and q1: "\<And>k. kind message = Some k \<Longrightarrow> quiet body (registered w k) message"
    and q2: "quiet body (registered w ''*'') message"
  shows "onmessage JSON_parse body event_data w
           = w\<lparr>calls := calls w
                 @ (case kind message of None \<Rightarrow> [] | Some k \<Rightarrow> deliveries w k message)
                 @ deliveries w ''*'' message\<rparr>"
proof -
  obtain type where t: "get_prop message ''type'' = Inr type"
    using nn by (cases message) simp_all
  show ?thesis
  proof (cases "kind message")
    case None
    then have "(case type of Some (JStr k) \<Rightarrow> emit body k message w | _ \<Rightarrow> Normal w) = Normal w"
      using t by (auto simp: kind_def split: option.splits json.splits)
    then show ?thesis
      using p t None emit_quiet [OF q2] by (simp add: onmessage_def)
  next
    case (Some k)
    then have ty: "type = Some (JStr k)"
      using t by (auto simp: kind_def split: option.splits json.splits)
    let ?w1 = "w\<lparr>calls := calls w @ deliveries w k message\<rparr>"
    have e1: "emit body k message w = Normal ?w1"
      using emit_quiet [OF q1 [OF Some]] .
    have "quiet body (registered ?w1 ''*'') message" using q2 by simp
    then have e2: "emit body ''*'' message ?w1
        = Normal (?w1\<lparr>calls := calls ?w1 @ deliveries ?w1 ''*'' message\<rparr>)"
      by (rule emit_quiet)
    show ?thesis
      using p t ty Some e1 e2 by (simp add: onmessage_def)
  qed
qed

subsection \<open>Invariants of the registry\<close>

lemma emit_invariant:
  assumes det: "\<And>k g w. P w \<Longrightarrow> P (detach k g w)"
    and log: "\<And>g w. P w \<Longrightarrow> subscribed w event g \<Longrightarrow> P (w\<lparr>calls := calls w @ [(event, g, data)]\<rparr>)"
    and P: "P w"
  shows "P (state_of (emit body event data w))"
proof (cases "handlers w event")
  case None
  then show ?thesis using P by (simp add: emit_def)
next
  case (Some es)
  have step: "P (state_of (call_handler body event h data w))" if "P w" "subscribed w event h" for h w
    unfolding call_handler_def
    using run_actions_invariant [where P = P and as = "body h data"
        and w = "w\<lparr>calls := calls w @ [(event, h, data)]\<rparr>"] det log [OF that]
    by blast
  show ?thesis
    using forEach_from_invariant [where P = P and event = event and body = body and data = data
        and w = w and i = 0] step P Some
    by (simp add: emit_def)
qed

lemma registry_scheduleReconnect:
  "handlers (scheduleReconnect w) = handlers w" "calls (scheduleReconnect w) = calls w"
  by (simp_all add: scheduleReconnect_def setTimeout_def)

lemma registry_WebSocket_close:
  "handlers (WebSocket_close s w) = handlers w" "calls (WebSocket_close s w) = calls w"
  by (simp_all add: WebSocket_close_def split: option.splits readyState.splits)

lemma registry_connect:
  "handlers (connect c w) = handlers w" "calls (connect c w) = calls w"
  by (simp_all add: connect_def new_WebSocket_def registry_scheduleReconnect)

lemma registry_disconnect:
  "handlers (disconnect w) = handlers w" "calls (disconnect w) = calls w"
  by (simp_all add: disconnect_def Let_def clearTimeout_def registry_WebSocket_close
      split: option.splits)

lemma registry_error_event:
  "handlers (error_event s w) = handlers w" "calls (error_event s w) = calls w"
  by (simp_all add: error_event_def onerror_def registry_WebSocket_close
      split: option.splits readyState.splits)

lemma registry_timeout_event:
  "handlers (timeout_event c t w) = handlers w" "calls (timeout_event c t w) = calls w"
  by (simp_all add: timeout_event_def reconnect_callback_def registry_connect)

lemma exec_invariant:
  assumes reg: "\<And>w w'. handlers w' = handlers w \<Longrightarrow> calls w' = calls w \<Longrightarrow> P w \<Longrightarrow> P w'"
    and det: "\<And>k g w. P w \<Longrightarrow> P (detach k g w)"
    and log: "\<And>k g d w. P w \<Longrightarrow> subscribed w k g \<Longrightarrow> P (w\<lparr>calls := calls w @ [(k, g, d)]\<rparr>)"
    and on: "\<And>k g w. a = On k g \<Longrightarrow> P w \<Longrightarrow> P (fst (on k g w))"
    and P: "P w"
  shows "P (exec JSON_parse body a w)"
proof -
  have emitP: "P (state_of (emit body e d v))" if "P v" for e d v
  proof (rule emit_invariant [where P = P])
    show "P (detach k g u)" if "P u" for k g u using det that .
    show "P (u\<lparr>calls := calls u @ [(e, g, d)]\<rparr>)" if "P u" "subscribed u e g" for g u
      using log that .
    show "P v" using that .
  qed
  show ?thesis
  proof (cases a)
    case (Connect c)
    have "P (connect c w)" by (rule reg [OF _ _ P]) (simp_all add: registry_connect)
    then show ?thesis using Connect by simp
  next
    case Disconnect
    have "P (disconnect w)" by (rule reg [OF _ _ P]) (simp_all add: registry_disconnect)
    then show ?thesis using Disconnect by simp
  next
    case (On k g)
    then show ?thesis using on [OF On P] by simp
  next
    case (Detach k g)
    then show ?thesis using det [OF P] by simp
  next
    case (Open s)
    have "P (w\<lparr>sockets := (sockets w)[s := OPEN], reconnectDelay := 1000\<rparr>)"
      by (rule reg [OF _ _ P]) simp_all
    then have "P (state_of (emit body ''connection'' (connection_message True)
        (w\<lparr>sockets := (sockets w)[s := OPEN], reconnectDelay := 1000\<rparr>)))"
      by (rule emitP)
    then show ?thesis using Open P by (simp add: open_event_def onopen_def)
  next
    case (Message s event_data)
    have "P (onmessage JSON_parse body event_data w)"
    proof (cases "JSON_parse event_data")
      case None
      then show ?thesis using P by (simp add: onmessage_def)
    next
      case (Some message)
      show ?thesis
      proof (cases "get_prop message ''type''")
        case (Inl e)
        then show ?thesis using Some P by (simp add: onmessage_def)
      next
        case (Inr type)
        define first where
          "first = (case type of Some (JStr k) \<Rightarrow> emit body k message w | _ \<Rightarrow> Normal w)"
        have f1: "P (state_of first)"
          unfolding first_def using P emitP [OF P]
          by (simp split: option.splits json.splits)
        have res: "onmessage JSON_parse body event_data w =
            (case first of Threw e w' \<Rightarrow> w' | Normal w' \<Rightarrow> state_of (emit body ''*'' message w'))"
          using Some Inr by (simp add: onmessage_def first_def)
        show ?thesis
        proof (cases first)
          case (Normal w')
          then have "P w'" using f1 by simp
          then have "P (state_of (emit body ''*'' message w'))" by (rule emitP)
          then show ?thesis using res Normal by simp
        next
          case (Threw e w')
          then show ?thesis using res f1 by simp
        qed
      qed
    qed
    then show ?thesis using Message P by (simp add: message_event_def)
  next
    case (Error s)
    have "P (error_event s w)" by (rule reg [OF _ _ P]) (simp_all add: registry_error_event)
    then show ?thesis using Error by simp
  next
    case (Close s)
    let ?v = "w\<lparr>sockets := (sockets w)[s := CLOSED]\<rparr>"
    let ?r = "emit body ''connection'' (connection_message False) ?v"
    have "P ?v" by (rule reg [OF _ _ P]) simp_all
    then have e: "P (state_of ?r)" by (rule emitP)
    have "P (scheduleReconnect (state_of ?r))"
      by (rule reg [OF _ _ e]) (simp_all add: registry_scheduleReconnect)
    then have "P (state_of (onclose body ?v))"
      using e by (cases ?r) (simp_all add: onclose_def)
    then show ?thesis using Close P by (simp add: close_event_def split: option.splits readyState.splits)
  next
    case (Timeout c t)
    have "P (timeout_event c t w)" by (rule reg [OF _ _ P]) (simp_all add: registry_timeout_event)
    then show ?thesis using Timeout by simp
  qed
qed

lemma run_invariant:
  assumes reg: "\<And>w w'. handlers w' = handlers w \<Longrightarrow> calls w' = calls w \<Longrightarrow> P w \<Longrightarrow> P w'"
    and det: "\<And>k g w. P w \<Longrightarrow> P (detach k g w)"
    and log: "\<And>k g d w. P w \<Longrightarrow> subscribed w k g \<Longrightarrow> P (w\<lparr>calls := calls w @ [(k, g, d)]\<rparr>)"
    and on: "\<And>k g w. On k g \<in> set acts \<Longrightarrow> P w \<Longrightarrow> P (fst (on k g w))"
    and P: "P w"
  shows "P (run JSON_parse body acts w)"
  using on P
proof (induction acts arbitrary: w)
  case Nil
  then show ?case by simp
next
  case (Cons a acts)
  have "P (exec JSON_parse body a w)"
  proof (rule exec_invariant [where P = P])
    show "P w'" if "handlers w' = handlers u" "calls w' = calls u" "P u" for u w'
      using reg that .
    show "P (detach k g u)" if "P u" for k g u using det that .
    show "P (u\<lparr>calls := calls u @ [(k, g, d)]\<rparr>)" if "P u" "subscribed u k g" for k g d u
      using log that .
    show "P (fst (on k g u))" if "a = On k g" "P u" for k g u
      using Cons.prems(1) [of k g u] that by simp
    show "P w" using Cons.prems(2) .
  qed
  then show ?case using Cons.IH Cons.prems(1) by simp
qed

lemma members_set_delete: "members (set_delete h es) = filter (\<lambda>g. g \<noteq> h) (members es)"
  by (induction es) (auto simp: set_delete_def split: option.splits)

lemma registered_detach:
  "registered (detach k g w) event
     = (if k = event then filter (\<lambda>x. x \<noteq> g) (registered w event) else registered w event)"
  by (simp add: registered_def detach_def members_set_delete split: option.splits)

lemma registered_on:
  "registered (fst (on k g w)) event
     = (if k = event \<and> g \<notin> set (registered w event) then registered w event @ [g]
        else registered w event)"
  by (auto simp: registered_def on_def Let_def set_add_def set_members split: option.splits)

lemma subscribed_registered: "subscribed w event h = (h \<in> set (registered w event))"
  by (simp add: subscribed_def registered_def set_members split: option.splits)

lemma registered_cong: "handlers w' = handlers w \<Longrightarrow> registered w' event = registered w event"
  by (simp add: registered_def)

lemma distinct_registered_run:
  "distinct (registered (run JSON_parse body acts (new_DashboardWebSocket p h)) event)"
proof (rule run_invariant [where P = "\<lambda>w. distinct (registered w event)"])
  show "distinct (registered w' event)"
    if "handlers w' = handlers w" "calls w' = calls w" "distinct (registered w event)" for w w'
    using that registered_cong [of w' w event] by simp
  show "distinct (registered (detach k g w) event)" if "distinct (registered w event)" for k g w
    using that by (simp add: registered_detach)
  show "distinct (registered (w\<lparr>calls := calls w @ [(k, g, d)]\<rparr>) event)"
    if "distinct (registered w event)" for k g d w
    using that by simp
  show "distinct (registered (fst (on k g w)) event)" if "distinct (registered w event)" for k g w
    using that by (simp add: registered_on)
  show "distinct (registered (new_DashboardWebSocket p h) event)"
    by (simp add: registered_def new_DashboardWebSocket_def)
qed

lemma invocations_calls_other:
  "(k, g) \<noteq> (event, h) \<Longrightarrow>
     invocations (w\<lparr>calls := calls w @ [(k, g, d)]\<rparr>) event h = invocations w event h"
  by (auto simp: invocations_def)

lemma invocations_cong: "calls w' = calls w \<Longrightarrow> invocations w' event h = invocations w event h"
  by (simp add: invocations_def)

lemma calls_detach: "calls (detach k g w) = calls w"
  by (simp add: detach_def split: option.splits)

lemma calls_on: "calls (fst (on k g w)) = calls w"
  by (simp add: on_def Let_def split: option.splits)

lemma unsubscribed_run:
  assumes "\<not> subscribed w event h" and "On event h \<notin> set acts"
  shows "\<not> subscribed (run JSON_parse body acts w) event h \<and>
         invocations (run JSON_parse body acts w) event h = invocations w event h"
proof (rule run_invariant
    [where P = "\<lambda>u. \<not> subscribed u event h \<and> invocations u event h = invocations w event h"])
  show "\<not> subscribed w' event h \<and> invocations w' event h = invocations w event h"
    if "handlers w' = handlers u" "calls w' = calls u"
      "\<not> subscribed u event h \<and> invocations u event h = invocations w event h" for u w'
    using that registered_cong [of w' u event] invocations_cong [of w' u event h]
    by (simp add: subscribed_registered)
  show "\<not> subscribed (detach k g u) event h \<and> invocations (detach k g u) event h = invocations w event h"
    if "\<not> subscribed u event h \<and> invocations u event h = invocations w event h" for k g u
    using that invocations_cong [OF calls_detach, of k g u event h]
    by (simp add: subscribed_registered registered_detach)
  show "\<not> subscribed (u\<lparr>calls := calls u @ [(k, g, d)]\<rparr>) event h \<and>
        invocations (u\<lparr>calls := calls u @ [(k, g, d)]\<rparr>) event h = invocations w event h"
    if "\<not> subscribed u event h \<and> invocations u event h = invocations w event h" "subscribed u k g"
    for k g d u
  proof -
    have "(k, g) \<noteq> (event, h)" using that by auto
    then show ?thesis using that(1) invocations_calls_other [of k g event h u d]
      by (simp add: subscribed_registered)
  qed
  show "\<not> subscribed (fst (on k g u)) event h \<and>
        invocations (fst (on k g u)) event h = invocations w event h"
    if "On k g \<in> set acts" "\<not> subscribed u event h \<and> invocations u event h = invocations w event h"
    for k g u
  proof -
    have "(k, g) \<noteq> (event, h)" using that(1) assms(2) by auto
    then show ?thesis using that(2) invocations_cong [OF calls_on, of k g u event h]
      by (auto simp: subscribed_registered registered_on)
  qed
  show "\<not> subscribed w event h \<and> invocations w event h = invocations w event h"
    using assms(1) by simp
qed

lemma unsubscribed_forEach_from:
  assumes "\<not> subscribed w event h"
  shows "\<not> subscribed (state_of (forEach_from body k data i w)) event h \<and>
         invocations (state_of (forEach_from body k data i w)) event h = invocations w event h"
proof (rule forEach_from_invariant
    [where P = "\<lambda>u. \<not> subscribed u event h \<and> invocations u event h = invocations w event h"])
  show "\<not> subscribed (state_of (call_handler body k g data u)) event h \<and>
        invocations (state_of (call_handler body k g data u)) event h = invocations w event h"
    if "\<not> subscribed u event h \<and> invocations u event h = invocations w event h" "subscribed u k g"
    for g u
  proof -
    have ne: "(k, g) \<noteq> (event, h)" using that by auto
    let ?u1 = "u\<lparr>calls := calls u @ [(k, g, data)]\<rparr>"
    have "\<not> subscribed ?u1 event h \<and> invocations ?u1 event h = invocations w event h"
      using that(1) invocations_calls_other [OF ne, of u data] by (simp add: subscribed_registered)
    then show ?thesis
      unfolding call_handler_def
      by (rule run_actions_invariant
          [where P = "\<lambda>u. \<not> subscribed u event h \<and> invocations u event h = invocations w event h",
            rotated])
        (simp add: subscribed_registered registered_detach invocations_def calls_detach)
  qed
  show "\<not> subscribed w event h \<and> invocations w event h = invocations w event h"
    using assms by simp
qed

lemma detach_unsubscribes: "\<not> subscribed (detach event h w) event h"
  by (simp add: subscribed_registered registered_detach)

lemma detach_idem: "detach event h (detach event h w) = detach event h w"
proof (cases "handlers w event")
  case None
  then show ?thesis by (simp add: detach_def)
next
  case (Some es)
  have "set_delete h (set_delete h es) = set_delete h es"
    by (simp add: set_delete_def)
  then show ?thesis using Some by (simp add: detach_def)
qed

lemma detach_funpow: "(detach event h ^^ Suc n) w = detach event h w"
  by (induction n) (simp_all add: detach_idem)

lemma registered_fresh: "registered fresh event = []"
  by (simp add: registered_def fresh_def new_DashboardWebSocket_def)

lemma calls_fresh: "calls fresh = []"
  by (simp add: fresh_def new_DashboardWebSocket_def)

lemma quiet_no_bodies: "quiet no_bodies hs data"
  by (simp add: quiet_def no_bodies_def)

lemma kind_JObj: "kind (JObj fs) = (case map_of fs ''type'' of Some (JStr k) \<Rightarrow> Some k | _ \<Rightarrow> None)"
  by (simp add: kind_def)

lemma wildcard_untouched_by_connection:
  "invocations (state_of (emit body ''connection'' data w)) ''*'' h = invocations w ''*'' h"
proof (rule emit_invariant [where P = "\<lambda>u. invocations u ''*'' h = invocations w ''*'' h"])
  show "invocations (detach k g u) ''*'' h = invocations w ''*'' h"
    if "invocations u ''*'' h = invocations w ''*'' h" for k g u
    using that invocations_cong [OF calls_detach, of k g u "''*''" h] by simp
  show "invocations (u\<lparr>calls := calls u @ [(''connection'', g, data)]\<rparr>) ''*'' h = invocations w ''*'' h"
    if "invocations u ''*'' h = invocations w ''*'' h" for g u
    using that by (simp add: invocations_def)
  show "invocations w ''*'' h = invocations w ''*'' h" by simp
qed

subsection \<open>Dispatch to handlers that detach themselves\<close>

lemma run_actions_self:
  "set as \<subseteq> {CallDetach event h} \<Longrightarrow>
     run_actions as w = Normal (if as = [] then w else detach event h w)"
proof (induction as arbitrary: w)
  case Nil
  then show ?case by simp
next
  case (Cons a as)
  then have a: "a = CallDetach event h" and s: "set as \<subseteq> {CallDetach event h}" by auto
  show ?case using Cons.IH [OF s, of "detach event h w"] a by (simp add: detach_idem)
qed

lemma set_delete_absent: "Some h \<notin> set es \<Longrightarrow> set_delete h es = es"
  by (induction es) (auto simp: set_delete_def)

lemma drop_set_delete: "drop k (set_delete h es) = set_delete h (drop k es)"
  by (simp add: set_delete_def drop_map)

lemma later_entries_differ:
  assumes "distinct (members es)" and "i < length es" and "es ! i = Some h"
  shows "Some h \<notin> set (drop (Suc i) es)"
proof -
  have "es = take i es @ Some h # drop (Suc i) es"
    using assms(2,3) by (metis id_take_nth_drop)
  then have "members es = members (take i es) @ h # members (drop (Suc i) es)"
    by (metis members_append members_Cons option.simps(5))
  then have "h \<notin> set (members (drop (Suc i) es))"
    using assms(1) by simp
  then show ?thesis by (simp add: set_members)
qed

lemma forEach_from_self_detaching:
  "handlers w event = Some es \<Longrightarrow> distinct (members es) \<Longrightarrow> n = length es - i \<Longrightarrow>
   self_detaching body event (members (drop i es)) data \<Longrightarrow>
     \<exists>w'. forEach_from body event data i w = Normal w' \<and>
          calls w' = calls w @ map (\<lambda>h. (event, h, data)) (members (drop i es))"
proof (induction n arbitrary: i w es)
  case 0
  then show ?case by (simp add: forEach_from.simps [of body event data i w])
next
  case (Suc n)
  then have i: "i < length es" by simp
  have d: "drop i es = es ! i # drop (Suc i) es"
    using i by (simp add: Cons_nth_drop_Suc)
  have n: "n = length es - Suc i" using Suc.prems(3) by simp
  show ?case
  proof (cases "es ! i")
    case None
    then have q: "self_detaching body event (members (drop (Suc i) es)) data"
      using Suc.prems(4) d by simp
    show ?thesis
      using Suc.IH [OF Suc.prems(1) Suc.prems(2) n q] Suc.prems(1) i None d
      by (simp add: forEach_from.simps [of body event data i w])
  next
    case (Some h)
    then have m: "members (drop i es) = h # members (drop (Suc i) es)"
      using d by simp
    have b: "set (body h data) \<subseteq> {CallDetach event h}"
      and q: "self_detaching body event (members (drop (Suc i) es)) data"
      using Suc.prems(4) m by (simp_all add: self_detaching_def)
    let ?w1 = "w\<lparr>calls := calls w @ [(event, h, data)]\<rparr>"
    let ?w2 = "if body h data = [] then ?w1 else detach event h ?w1"
    let ?es2 = "if body h data = [] then es else set_delete h es"
    have ch: "call_handler body event h data w = Normal ?w2"
      using run_actions_self [OF b, of ?w1] by (simp add: call_handler_def)
    have h2: "handlers ?w2 event = Some ?es2"
      using Suc.prems(1) by (simp add: detach_def)
    have c2: "calls ?w2 = calls w @ [(event, h, data)]"
      by (simp add: calls_detach)
    have l2: "length ?es2 = length es" by (simp add: set_delete_def)
    have dr: "drop (Suc i) ?es2 = drop (Suc i) es"
      using later_entries_differ [OF Suc.prems(2) i Some]
      by (simp add: drop_set_delete set_delete_absent)
    have di: "distinct (members ?es2)"
      using Suc.prems(2) by (simp add: members_set_delete)
    have n2: "n = length ?es2 - Suc i" using n l2 by simp
    have q2: "self_detaching body event (members (drop (Suc i) ?es2)) data"
      using q dr by simp
    obtain w' where w': "forEach_from body event data (Suc i) ?w2 = Normal w'"
      "calls w' = calls ?w2 @ map (\<lambda>h. (event, h, data)) (members (drop (Suc i) ?es2))"
      using Suc.IH [OF h2 di n2 q2] by blast
    have "forEach_from body event data i w = Normal w'"
      using Suc.prems(1) i Some ch w'(1)
      by (simp add: forEach_from.simps [of body event data i w])
    moreover have "calls w' = calls w @ map (\<lambda>h. (event, h, data)) (members (drop i es))"
      using w'(2) c2 dr m by simp
    ultimately show ?thesis by blast
  qed
qed

lemma emit_self_detaching:
  assumes "distinct (registered w event)" and "self_detaching body event (registered w event) data"
  shows "returns (emit body event data w) \<and>
         calls (state_of (emit body event data w)) = calls w @ deliveries w event data"
proof (cases "handlers w event")
  case None
  then show ?thesis by (simp add: emit_def deliveries_def registered_def returns_def)
next
  case (Some es)
  obtain w' where "forEach_from body event data 0 w = Normal w'"
    "calls w' = calls w @ map (\<lambda>h. (event, h, data)) (members (drop 0 es))"
    using forEach_from_self_detaching [where w = w and event = event and es = es and i = 0
        and body = body and data = data and n = "length es - 0"] Some assms
    by (auto simp: registered_def)
  then show ?thesis using Some
    by (simp add: emit_def deliveries_def registered_def returns_def)
qed

subsection \<open>Delivery of events\<close>

text \<open>
  C5 (as amended). In any state the client can reach, an incoming message that parses to a
  JSON value other than \<^verbatim>\<open>null\<close> and whose type is not the string \<^verbatim>\<open>*\<close> is delivered as
  follows, when the handlers concerned return without throwing or detaching: first the
  handlers registered under the message's type (if it has one that is a string), in the
  order of registration, then the handlers registered under \<^verbatim>\<open>*\<close>; each of these calls
  gets the whole parsed message, no registration is served twice, no other handler is
  called, and nothing else in the client changes. A handler registered under both the
  type and \<^verbatim>\<open>*\<close> is called once for each registration.
\<close>

theorem message_dispatch:
  assumes "w = run JSON_parse body acts (new_DashboardWebSocket location_protocol location_host)"
    and "JSON_parse event_data = Some message" and "message \<noteq> JNull"
    and "kind message \<noteq> Some ''*''"
    and "quiet body (registered w ''*'') message"
    and "\<forall>k. kind message = Some k \<longrightarrow> quiet body (registered w k) message"
  shows "onmessage JSON_parse body event_data w
           = w\<lparr>calls := calls w
                 @ (case kind message of None \<Rightarrow> [] | Some k \<Rightarrow> deliveries w k message)
                 @ deliveries w ''*'' message\<rparr> \<and>
         distinct ((case kind message of None \<Rightarrow> [] | Some k \<Rightarrow> deliveries w k message)
                 @ deliveries w ''*'' message)"
proof -
  have d: "distinct (deliveries w k message)" for k
    using distinct_registered_run [of JSON_parse body acts location_protocol location_host k] assms(1)
    by (simp add: deliveries_def distinct_map inj_on_def)
  have "distinct (deliveries w k message @ deliveries w ''*'' message)" if "k \<noteq> ''*''" for k
    using d that by (auto simp: deliveries_def)
  then have "distinct ((case kind message of None \<Rightarrow> [] | Some k \<Rightarrow> deliveries w k message)
                 @ deliveries w ''*'' message)"
    using assms(4) d by (cases "kind message") auto
  moreover have "onmessage JSON_parse body event_data w
           = w\<lparr>calls := calls w
                 @ (case kind message of None \<Rightarrow> [] | Some k \<Rightarrow> deliveries w k message)
                 @ deliveries w ''*'' message\<rparr>"
  proof (rule onmessage_quiet)
    show "JSON_parse event_data = Some message" using assms(2) .
    show "message \<noteq> JNull" using assms(3) .
    show "quiet body (registered w k) message" if "kind message = Some k" for k
      using assms(6) that by simp
    show "quiet body (registered w ''*'') message" using assms(5) .
  qed
  ultimately show ?thesis by simp
qed

theorem message_dispatch_witness:
  \<open>calls (onmessage sample_parse no_bodies ''{"type":"job_update","data":1}''
      (run sample_parse no_bodies [On ''job_update'' 1, On ''*'' 2, On ''health_update'' 3] fresh))
    = [(''job_update'', 1, JObj [(''type'', JStr ''job_update''), (''data'', JNum 1)]),
       (''*'', 2, JObj [(''type'', JStr ''job_update''), (''data'', JNum 1)])]\<close>
proof -
  let ?w = "run sample_parse no_bodies [On ''job_update'' 1, On ''*'' 2, On ''health_update'' 3] fresh"
  let ?m = "JObj [(''type'', JStr ''job_update''), (''data'', JNum 1)]"
  have w: "?w = run sample_parse no_bodies [On ''job_update'' 1, On ''*'' 2, On ''health_update'' 3]
      (new_DashboardWebSocket ''http:'' ''localhost:3000'')"
    by (simp add: fresh_def)
  have p: \<open>sample_parse ''{"type":"job_update","data":1}'' = Some ?m\<close>
    by (simp add: sample_parse_def)
  have k: "kind ?m = Some ''job_update''" by (simp add: kind_JObj)
  have c: "calls ?w = []" by (simp add: calls_on calls_fresh)
  have r: "registered ?w ''job_update'' = [1]" "registered ?w ''*'' = [2]"
    by (simp_all add: registered_on registered_fresh)
  show ?thesis
    using message_dispatch [OF w p] k c r
    by (simp add: quiet_no_bodies deliveries_def)
qed

text \<open>
  The claim as stated fails for JSON that parses: the message \<^verbatim>\<open>null\<close> throws at
  \<^verbatim>\<open>message.type\<close>, is swallowed by the \<^verbatim>\<open>catch\<close> and reaches no handler, not even those
  under \<^verbatim>\<open>*\<close>; a message of type \<^verbatim>\<open>*\<close> reaches each handler under \<^verbatim>\<open>*\<close> twice; and when a
  handler registered under the type throws, the \<^verbatim>\<open>catch\<close> ends the dispatch before the
  handlers under \<^verbatim>\<open>*\<close> are called.
\<close>

theorem message_dispatch_counterexample:
  \<open>calls (onmessage sample_parse no_bodies ''null'' (fst (on ''*'' 0 fresh))) = [] \<and>
   calls (onmessage sample_parse no_bodies ''{"type":"*"}'' (fst (on ''*'' 0 fresh)))
     = [(''*'', 0, JObj [(''type'', JStr ''*'')]), (''*'', 0, JObj [(''type'', JStr ''*'')])] \<and>
   calls (onmessage sample_parse failing_bodies ''{"type":"job_update","data":1}''
       (fst (on ''*'' 2 (fst (on ''job_update'' 1 fresh)))))
     = [(''job_update'', 1, JObj [(''type'', JStr ''job_update''), (''data'', JNum 1)])]\<close>
proof -
  let ?w = "fst (on ''*'' 0 fresh)"
  let ?m = "JObj [(''type'', JStr ''*'')]"
  have c: "calls ?w = []" by (simp add: calls_on calls_fresh)
  have r: "registered ?w ''*'' = [0]" by (simp add: registered_on registered_fresh)
  have n: "onmessage sample_parse no_bodies ''null'' ?w = ?w"
    by (simp add: onmessage_def sample_parse_def)
  have p: \<open>sample_parse ''{"type":"*"}'' = Some ?m\<close>
    by (simp add: sample_parse_def)
  have k: "kind ?m = Some ''*''" by (simp add: kind_JObj)
  have "onmessage sample_parse no_bodies ''{\"type\":\"*\"}'' ?w
      = ?w\<lparr>calls := calls ?w
           @ (case kind ?m of None \<Rightarrow> [] | Some k \<Rightarrow> deliveries ?w k ?m)
           @ deliveries ?w ''*'' ?m\<rparr>"
    by (rule onmessage_quiet) (simp_all add: p quiet_no_bodies)
  then have twice: "calls (onmessage sample_parse no_bodies ''{\"type\":\"*\"}'' ?w)
      = [(''*'', 0, ?m), (''*'', 0, ?m)]"
    using c r k by (simp add: deliveries_def)
  let ?v = "fst (on ''*'' 2 (fst (on ''job_update'' 1 fresh)))"
  let ?j = "JObj [(''type'', JStr ''job_update''), (''data'', JNum 1)]"
  have h: "handlers ?v ''job_update'' = Some [Some 1]"
    by (simp add: on_def fresh_def new_DashboardWebSocket_def set_add_def)
  have cv: "calls ?v = []" by (simp add: calls_on calls_fresh)
  have "forEach_from failing_bodies ''job_update'' ?j 0 ?v
      = Threw HandlerError (?v\<lparr>calls := calls ?v @ [(''job_update'', 1, ?j)]\<rparr>)"
    by (subst forEach_from.simps) (use h in \<open>simp add: call_handler_def failing_bodies_def\<close>)
  then have "calls (onmessage sample_parse failing_bodies ''{\"type\":\"job_update\",\"data\":1}'' ?v)
      = [(''job_update'', 1, ?j)]"
    using h cv by (simp add: onmessage_def sample_parse_def emit_def)
  then show ?thesis using n c twice by simp
qed




subsection \<open>Detaching\<close>

lemma unsubscribed_detach: "\<not> subscribed w event h \<Longrightarrow> \<not> subscribed (detach k g w) event h"
  by (simp add: subscribed_registered registered_detach)

lemma unsubscribed_run_actions:
  "\<not> subscribed w event h \<Longrightarrow> \<not> subscribed (state_of (run_actions as w)) event h"
  by (rule run_actions_invariant [where P = "\<lambda>u. \<not> subscribed u event h"])
    (simp_all add: unsubscribed_detach)

lemma calls_run_actions: "calls (state_of (run_actions as w)) = calls w"
  by (rule run_actions_invariant [where P = "\<lambda>u. calls u = calls w"]) (simp_all add: calls_detach)

lemma run_actions_detaches:
  "CallDetach event h \<in> set as \<Longrightarrow> Throw \<notin> set as \<Longrightarrow>
     \<not> subscribed (state_of (run_actions as w)) event h"
proof (induction as w rule: run_actions.induct)
  case (1 w)
  then show ?case by simp
next
  case (2 k g as w)
  show ?case
  proof (cases "CallDetach event h \<in> set as")
    case True
    then show ?thesis using 2 by simp
  next
    case False
    then have "k = event" "g = h" using "2.prems"(1) by auto
    then show ?thesis
      using unsubscribed_run_actions [where w = "detach event h w" and event = event and h = h
          and as = as] detach_unsubscribes [of event h w]
      by simp
  qed
next
  case (3 as w)
  then show ?case by simp
qed

lemma call_handler_detaches:
  "CallDetach event h \<in> set (body g data) \<Longrightarrow> Throw \<notin> set (body g data) \<Longrightarrow>
     \<not> subscribed (state_of (call_handler body k g data w)) event h"
  by (simp add: call_handler_def run_actions_detaches)

lemma subscribed_calls [simp]: "subscribed (w\<lparr>calls := cs\<rparr>) event h = subscribed w event h"
  by (simp add: subscribed_def)

lemma detached_in_dispatch_step:
  assumes nt: "never_throws body"
    and P: "detached_in_dispatch body k data event h w u"
    and s: "subscribed u k g'"
  shows "detached_in_dispatch body k data event h w (state_of (call_handler body k g' data u))"
proof -
  let ?u2 = "state_of (call_handler body k g' data u)"
  obtain new where c: "calls u = calls w @ new"
    and a: "\<And>g. (k, g, data) \<in> set new \<Longrightarrow> CallDetach event h \<in> set (body g data)
           \<Longrightarrow> \<not> subscribed u event h"
    and b: "\<And>pre post g d. new = pre @ (k, g, data) # post \<Longrightarrow>
           CallDetach event h \<in> set (body g data) \<Longrightarrow> (event, h, d) \<notin> set post"
    using P unfolding detached_in_dispatch_def by blast
  have t: "Throw \<notin> set (body g' data)" using nt by (simp add: never_throws_def)
  have c2: "calls ?u2 = calls w @ (new @ [(k, g', data)])"
    using c by (simp add: call_handler_def calls_run_actions)
  have mono: "\<not> subscribed u event h \<Longrightarrow> \<not> subscribed ?u2 event h"
    unfolding call_handler_def by (rule unsubscribed_run_actions) simp
  have a2: "\<not> subscribed ?u2 event h"
    if "(k, g, data) \<in> set (new @ [(k, g', data)])" "CallDetach event h \<in> set (body g data)" for g
  proof (cases "(k, g, data) \<in> set new")
    case True
    then show ?thesis using a that(2) mono by blast
  next
    case False
    then have "g = g'" using that(1) by simp
    then show ?thesis using call_handler_detaches that(2) t by blast
  qed
  have b2: "(event, h, d) \<notin> set post"
    if e: "new @ [(k, g', data)] = pre @ (k, g, data) # post"
      and m: "CallDetach event h \<in> set (body g data)" for pre post g d
  proof (cases post rule: rev_cases)
    case Nil
    then show ?thesis by simp
  next
    case (snoc post' z)
    then have "new @ [(k, g', data)] = (pre @ (k, g, data) # post') @ [z]" using e by simp
    then have n: "new = pre @ (k, g, data) # post'" and z: "z = (k, g', data)" by simp_all
    have "(k, g, data) \<in> set new" using n by simp
    then have "\<not> subscribed u event h" using a m by blast
    then have "(k, g') \<noteq> (event, h)" using s by auto
    then show ?thesis using b [OF n m, of d] snoc z by auto
  qed
  show ?thesis
    unfolding detached_in_dispatch_def using c2 a2 b2 by blast
qed

lemma detached_in_dispatch_emit:
  assumes "never_throws body"
  shows "detached_in_dispatch body k data event h w (state_of (emit body k data w))"
proof -
  have init: "detached_in_dispatch body k data event h w w"
    by (simp add: detached_in_dispatch_def)
  show ?thesis
  proof (cases "handlers w k")
    case None
    then show ?thesis using init by (simp add: emit_def)
  next
    case (Some es)
    have "detached_in_dispatch body k data event h w (state_of (forEach_from body k data 0 w))"
    proof (rule forEach_from_invariant [where P = "detached_in_dispatch body k data event h w"])
      show "detached_in_dispatch body k data event h w (state_of (call_handler body k g data u))"
        if "detached_in_dispatch body k data event h w u" "subscribed u k g" for g u
        using detached_in_dispatch_step [OF assms that] .
      show "detached_in_dispatch body k data event h w w" using init .
    qed
    then show ?thesis using Some by (simp add: emit_def)
  qed
qed



section \<open>Properties of the job lifecycle engine\<close>

lemma on_job_other:
  "jobId' \<noteq> jobId \<Longrightarrow> snd (on_job tr jobId' store) jobId = store jobId"
  by (auto simp: on_job_def split: option.splits prod.splits reply.splits)

lemma engine_terminal:
  assumes "store jobId = Some j" and "terminal (job_status j)" and "target c = jobId"
  shows "rejected (fst (engine c store)) \<and> snd (engine c store) = store"
  using assms
  by (cases c)
     (simp_all add: reportProgress_def completeJob_def failJob_def cancelJob_def on_job_def
        report_progress_def complete_job_def fail_job_def cancel_job_def)

lemma engine_keeps_terminal:
  assumes "store jobId = Some j" and "terminal (job_status j)"
  shows "snd (engine c store) jobId = Some j"
proof (cases "target c = jobId")
  case True
  then show ?thesis using engine_terminal [of store jobId j c] assms by simp
next
  case False
  then show ?thesis using assms(1)
    by (cases c)
       (simp_all add: reportProgress_def completeJob_def failJob_def cancelJob_def on_job_other)
qed

lemma engine_calls_keep_terminal:
  "store jobId = Some j \<Longrightarrow> terminal (job_status j) \<Longrightarrow> engine_calls cs store jobId = Some j"
proof (induction cs arbitrary: store)
  case Nil
  then show ?case by simp
next
  case (Cons c cs)
  then show ?case using engine_keeps_terminal [of store jobId j c] by simp
qed

text \<open>
  C2. A job in a terminal status (completed, failed, cancelled) is a tombstone: after any
  sequence of engine calls the store still holds the job with every field as it was, and
  every further \<^verbatim>\<open>reportProgress\<close>, \<^verbatim>\<open>completeJob\<close>, \<^verbatim>\<open>failJob\<close> or \<^verbatim>\<open>cancelJob\<close> for it is
  rejected and leaves the store unchanged.
\<close>

theorem terminal_job_is_tombstone:
  assumes "store jobId = Some j" and "terminal (job_status j)"
  shows "engine_calls cs store jobId = Some j \<and>
         (target c = jobId \<longrightarrow>
            rejected (fst (engine c (engine_calls cs store))) \<and>
            snd (engine c (engine_calls cs store)) = engine_calls cs store)"
  using engine_calls_keep_terminal [of store jobId j cs]
    engine_terminal [of "engine_calls cs store" jobId j c] assms
  by simp

theorem terminal_job_is_tombstone_witness:
  "engine_calls [CancelJob 6 7, ReportProgress 8 7 2 0 None] [7 \<mapsto> done_job] 7 = Some done_job \<and>
   rejected (fst (engine (CompleteJob 9 7)
     (engine_calls [CancelJob 6 7, ReportProgress 8 7 2 0 None] [7 \<mapsto> done_job]))) \<and>
   snd (engine (CompleteJob 9 7)
     (engine_calls [CancelJob 6 7, ReportProgress 8 7 2 0 None] [7 \<mapsto> done_job]))
     = engine_calls [CancelJob 6 7, ReportProgress 8 7 2 0 None] [7 \<mapsto> done_job]"
  using terminal_job_is_tombstone [of "[7 \<mapsto> done_job]" 7 done_job
      "[CancelJob 6 7, ReportProgress 8 7 2 0 None]" "CompleteJob 9 7"]
  by (simp add: done_job_def)

end
